theory Spec2Isabelle
  imports Main "HOL-Library.Word" "HOL-Library.Multiset" "HOL-Library.List_Lexorder" "HOL-Library.Char_ord"
begin

section \<open>Bytes, strings and errors\<close>

text \<open>
  A Go \<open>string\<close> and a Go \<open>[]byte\<close> are both sequences of bytes. Strings are modelled as
  \<open>string\<close> (a list of 8-bit characters, so \<open>length\<close> is Go's \<open>len\<close>), byte slices as
  lists of 8-bit words; \<open>[]byte(s)\<close> is \<open>bytes_of_string\<close>.
\<close>

type_synonym byte = "8 word"
type_synonym bytes = "byte list"

definition bytes_of_string :: "string \<Rightarrow> bytes" where
  "bytes_of_string s = map of_char s"

text \<open>Every error value the two packages build with \<open>fmt.Errorf\<close>, one constructor per
  message; \<open>ErrOS\<close> is an error of \<open>os\<close> returned as it is, \<open>ErrOther\<close> an error of a collaborator (another \<open>VaultStorage\<close>, the
  downstream consumer).\<close>

datatype error =
    ErrCreateDateDir
  | ErrWriteVaultFile
  | ErrRefNotFound string
  | ErrCreateObjectDir
  | ErrWriteObject
  | ErrInvalidURI string
  | ErrReadObject
  | ErrChecksumMismatch string string
  | ErrOS string
  | ErrOther string

section \<open>Telemetry records (the part of pdata the processor uses)\<close>

text \<open>
  \<open>pcommon.Value\<close> is a tagged union; \<open>Str()\<close> returns the string of a string value and the
  empty string for every other type. (The double variant is left out.)
\<close>

datatype val =
    ValueStr string
  | ValueInt int
  | ValueBool bool
  | ValueBytes bytes
  | ValueMap "(string \<times> val) list"
  | ValueSlice "val list"
  | ValueEmpty

fun Str :: "val \<Rightarrow> string" where
  "Str (ValueStr s) = s"
| "Str _ = []"

text \<open>
  \<open>pcommon.Map\<close> is a slice of key/value pairs: order matters and nothing removes duplicate
  keys. \<open>Get\<close> returns the first entry of a key, \<open>PutStr\<close> overwrites the first entry of the
  key or appends a new one, \<open>Remove\<close> deletes the first entry of the key by moving the last
  entry of the slice into its place.
\<close>

type_synonym Map = "(string \<times> val) list"

fun Get :: "Map \<Rightarrow> string \<Rightarrow> val option" where
  "Get [] k = None"
| "Get ((k', v) # m) k = (if k' = k then Some v else Get m k)"

fun PutStr :: "Map \<Rightarrow> string \<Rightarrow> string \<Rightarrow> Map" where
  "PutStr [] k v = [(k, ValueStr v)]"
| "PutStr ((k', x) # m) k v =
     (if k' = k then (k', ValueStr v) # m else (k', x) # PutStr m k v)"

fun Remove :: "Map \<Rightarrow> string \<Rightarrow> Map" where
  "Remove [] k = []"
| "Remove ((k', x) # m) k =
     (if k' = k then (if m = [] then [] else last m # butlast m)
      else (k', x) # Remove m k)"

record SpanEvent =
  EventName :: string
  EventAttributes :: Map

record Span =
  Name :: string
  TraceID :: string
  SpanID :: string
  Attributes :: Map
  Events :: "SpanEvent list"

record scope_spans =
  Spans :: "Span list"

record resource_spans =
  ScopeSpans :: "scope_spans list"

record traces =
  ResourceSpans :: "resource_spans list"

section \<open>Configuration (config.go)\<close>

record FilesystemConfig =
  BasePath :: string

record StorageConfig =
  Backend :: string
  Filesystem :: FilesystemConfig

record VaultConfig =
  Keys :: "string list"
  SizeThreshold :: int
  Mode :: string

record Config =
  Storage :: StorageConfig
  Vault :: VaultConfig

definition createDefaultConfig :: Config where
  "createDefaultConfig =
     \<lparr> Storage = \<lparr> Backend = ''filesystem'', Filesystem = \<lparr> BasePath = ''/data/vault'' \<rparr> \<rparr>,
       Vault = \<lparr> Keys = [''gen_ai.prompt'', ''gen_ai.completion'',
                          ''gen_ai.system_instructions'', ''gen_ai.input.messages'',
                          ''gen_ai.output.messages''],
                 SizeThreshold = 0,
                 Mode = ''replace_with_ref'' \<rparr> \<rparr>"

section \<open>The processor (vaultProcessor)\<close>

text \<open>
  The processor holds a \<open>VaultStorage\<close> (an interface with the one method \<open>Store\<close>) and the
  next consumer. Both are parameters here: \<open>vault\<close> takes the state \<open>'v\<close> of the storage and the
  content and returns the reference or an error with the new state; \<open>nextConsumer\<close> returns
  the error of the downstream \<open>ConsumeTraces\<close> (\<open>None\<close> is Go's \<open>nil\<close>).
  \<open>keysSet\<close> is the \<open>map[string]bool\<close>; reading a missing key of it gives \<open>false\<close>.
\<close>

datatype log_entry =
    Warn string string error
  | Debug string string string nat

record 'v vaultProcessor =
  config :: Config
  vault :: "'v \<Rightarrow> bytes \<Rightarrow> (error + string) \<times> 'v"
  nextConsumer :: "traces \<Rightarrow> error option"
  keysSet :: "string \<rightharpoonup> bool"

definition newVaultProcessor ::
  "Config \<Rightarrow> ('v \<Rightarrow> bytes \<Rightarrow> (error + string) \<times> 'v) \<Rightarrow> (traces \<Rightarrow> error option)
     \<Rightarrow> 'v vaultProcessor" where
  "newVaultProcessor cfg vlt nxt =
     \<lparr> config = cfg, vault = vlt, nextConsumer = nxt,
       keysSet = foldl (\<lambda>m k. m(k \<mapsto> True)) Map.empty (Keys (Vault cfg)) \<rparr>"

definition inKeysSet :: "'v vaultProcessor \<Rightarrow> string \<Rightarrow> bool" where
  "inKeysSet p k = (case keysSet p k of Some b \<Rightarrow> b | None \<Rightarrow> False)"

record vaultEntry =
  key :: string
  content :: string

text \<open>The callback of \<open>attrs.Range\<close> in \<open>vaultSpan\<close>: the pending list \<open>toVault\<close>, built
  without touching the attributes.\<close>

fun collect :: "'v vaultProcessor \<Rightarrow> Map \<Rightarrow> vaultEntry list" where
  "collect p [] = []"
| "collect p ((k, v) # rest) =
     (if \<not> inKeysSet p k then collect p rest
      else if int (length (Str v)) < SizeThreshold (Vault (config p)) then collect p rest
      else \<lparr> key = k, content = Str v \<rparr> # collect p rest)"

text \<open>The \<open>switch\<close> on the mode, applied after a successful \<open>Store\<close>: two cases and no
  default.\<close>

definition rewrite :: "string \<Rightarrow> string \<Rightarrow> string \<Rightarrow> Map \<Rightarrow> Map" where
  "rewrite md k ref attrs =
     (if md = ''replace_with_ref'' then PutStr (PutStr attrs k ref) (k @ ''.vault_ref'') ref
      else if md = ''remove'' then PutStr (Remove attrs k) (k @ ''.vault_ref'') ref
      else attrs)"

text \<open>The loop over \<open>toVault\<close>. The state is the attributes of the span, the state of the
  vault and the log.\<close>

fun offload ::
  "'v vaultProcessor \<Rightarrow> vaultEntry list \<Rightarrow> Map \<times> 'v \<times> log_entry list
     \<Rightarrow> Map \<times> 'v \<times> log_entry list" where
  "offload p [] st = st"
| "offload p (e # es) (attrs, v, lg) =
     (case vault p v (bytes_of_string (content e)) of
        (Inl err, v') \<Rightarrow>
          offload p es (attrs, v', lg @ [Warn ''vault store failed'' (key e) err])
      | (Inr ref, v') \<Rightarrow>
          offload p es
            (rewrite (Mode (Vault (config p))) (key e) ref attrs, v',
             lg @ [Debug ''vaulted attribute'' (key e) ref (length (content e))]))"

definition vaultSpan ::
  "'v vaultProcessor \<Rightarrow> Span \<Rightarrow> 'v \<times> log_entry list \<Rightarrow> Span \<times> 'v \<times> log_entry list" where
  "vaultSpan p span st =
     (case offload p (collect p (Attributes span)) (Attributes span, fst st, snd st) of
        (attrs, st') \<Rightarrow> (span\<lparr>Attributes := attrs\<rparr>, st'))"

text \<open>The three nested loops of \<open>ConsumeTraces\<close>, in the order of the source.\<close>

fun vaultSpans ::
  "'v vaultProcessor \<Rightarrow> Span list \<Rightarrow> 'v \<times> log_entry list
     \<Rightarrow> Span list \<times> 'v \<times> log_entry list" where
  "vaultSpans p [] st = ([], st)"
| "vaultSpans p (s # ss) st =
     (case vaultSpan p s st of
        (s', st') \<Rightarrow> (case vaultSpans p ss st' of (ss', st'') \<Rightarrow> (s' # ss', st'')))"

fun vaultScopes ::
  "'v vaultProcessor \<Rightarrow> scope_spans list \<Rightarrow> 'v \<times> log_entry list
     \<Rightarrow> scope_spans list \<times> 'v \<times> log_entry list" where
  "vaultScopes p [] st = ([], st)"
| "vaultScopes p (g # gs) st =
     (case vaultSpans p (Spans g) st of
        (ss', st') \<Rightarrow>
          (case vaultScopes p gs st' of (gs', st'') \<Rightarrow> (g\<lparr>Spans := ss'\<rparr> # gs', st'')))"

fun vaultResources ::
  "'v vaultProcessor \<Rightarrow> resource_spans list \<Rightarrow> 'v \<times> log_entry list
     \<Rightarrow> resource_spans list \<times> 'v \<times> log_entry list" where
  "vaultResources p [] st = ([], st)"
| "vaultResources p (r # rs) st =
     (case vaultScopes p (ScopeSpans r) st of
        (gs', st') \<Rightarrow>
          (case vaultResources p rs st' of
             (rs', st'') \<Rightarrow> (r\<lparr>ScopeSpans := gs'\<rparr> # rs', st'')))"

text \<open>\<open>ConsumeTraces\<close> returns the error of the downstream call; the batch it forwards and
  the final state are returned with it.\<close>

definition ConsumeTraces ::
  "'v vaultProcessor \<Rightarrow> traces \<Rightarrow> 'v \<times> log_entry list
     \<Rightarrow> error option \<times> traces \<times> 'v \<times> log_entry list" where
  "ConsumeTraces p td st =
     (case vaultResources p (ResourceSpans td) st of
        (rs', st') \<Rightarrow>
          (nextConsumer p (td\<lparr>ResourceSpans := rs'\<rparr>), td\<lparr>ResourceSpans := rs'\<rparr>, st'))"

section \<open>The file system seen by the two stores\<close>

text \<open>
  The stores reach the file system through \<open>os\<close> and \<open>path/filepath\<close>. A path is the list of
  its components below the root of the file system; \<open>basePath\<close> of a store is such a list
  (the configured directory). The file system is a tree: a regular file with its bytes, or
  a directory with its entries in the order \<open>readDirNames\<close> returns them (sorted by name).
  Symbolic links, permissions and a full disk are outside the model: an operation fails
  exactly when the shape of the tree forbids it, and a failed operation changes nothing.
\<close>

type_synonym path = "string list"

datatype node = FileNode bytes | DirNode "(string \<times> node) list"

fun put_entry :: "string \<Rightarrow> node \<Rightarrow> (string \<times> node) list \<Rightarrow> (string \<times> node) list" where
  "put_entry k v [] = [(k, v)]"
| "put_entry k v ((k', x) # es) =
     (if k = k' then (k, v) # es
      else if k < k' then (k, v) # (k', x) # es
      else (k', x) # put_entry k v es)"

fun lookup :: "node \<Rightarrow> path \<Rightarrow> node option" where
  "lookup n [] = Some n"
| "lookup (FileNode d) (c # cs) = None"
| "lookup (DirNode es) (c # cs) =
     (case map_of es c of None \<Rightarrow> None | Some n \<Rightarrow> lookup n cs)"

text \<open>\<open>os.Stat\<close> succeeds on a file and on a directory; \<open>os.ReadFile\<close> on a file only.\<close>

definition os_Stat :: "node \<Rightarrow> path \<Rightarrow> bool" where
  "os_Stat fs p = (lookup fs p \<noteq> None)"

definition os_ReadFile :: "node \<Rightarrow> path \<Rightarrow> bytes option" where
  "os_ReadFile fs p = (case lookup fs p of Some (FileNode d) \<Rightarrow> Some d | _ \<Rightarrow> None)"

text \<open>\<open>os.MkdirAll\<close> creates the missing directories of the path and fails when a component
  of the path is a regular file.\<close>

fun os_MkdirAll :: "node \<Rightarrow> path \<Rightarrow> node option" where
  "os_MkdirAll (FileNode d) p = None"
| "os_MkdirAll (DirNode es) [] = Some (DirNode es)"
| "os_MkdirAll (DirNode es) (c # cs) =
     (case os_MkdirAll (case map_of es c of None \<Rightarrow> DirNode [] | Some n \<Rightarrow> n) cs of
        None \<Rightarrow> None
      | Some n' \<Rightarrow> Some (DirNode (put_entry c n' es)))"

text \<open>\<open>os.WriteFile\<close> creates the file or replaces its bytes; it fails when the parent is
  not an existing directory and when the path is a directory.\<close>

fun os_WriteFile :: "node \<Rightarrow> path \<Rightarrow> bytes \<Rightarrow> node option" where
  "os_WriteFile n [] d = None"
| "os_WriteFile (FileNode x) (c # cs) d = None"
| "os_WriteFile (DirNode es) [c] d =
     (case map_of es c of
        Some (DirNode sub) \<Rightarrow> None
      | _ \<Rightarrow> Some (DirNode (put_entry c (FileNode d) es)))"
| "os_WriteFile (DirNode es) (c # c' # cs) d =
     (case map_of es c of
        None \<Rightarrow> None
      | Some n \<Rightarrow>
          (case os_WriteFile n (c' # cs) d of
             None \<Rightarrow> None
           | Some n' \<Rightarrow> Some (DirNode (put_entry c n' es))))"

text \<open>
  \<open>filepath.Walk\<close> with the callback of \<open>FilesystemVault.Retrieve\<close>: the tree is visited in
  pre-order, the entries of a directory in their order, and the walk stops (\<open>SkipAll\<close>) at
  the first regular file whose name is the target; the result is \<open>found\<close>.
\<close>

fun walk :: "path \<Rightarrow> node \<Rightarrow> string \<Rightarrow> path option"
  and walk_names :: "path \<Rightarrow> (string \<times> node) list \<Rightarrow> string \<Rightarrow> path option" where
  "walk p (FileNode d) tgt = (if p \<noteq> [] \<and> last p = tgt then Some p else None)"
| "walk p (DirNode es) tgt = walk_names p es tgt"
| "walk_names p [] tgt = None"
| "walk_names p ((n, x) # es) tgt =
     (case walk (p @ [n]) x tgt of Some q \<Rightarrow> Some q | None \<Rightarrow> walk_names p es tgt)"

definition filepath_Walk :: "node \<Rightarrow> path \<Rightarrow> string \<Rightarrow> path option" where
  "filepath_Walk fs root tgt =
     (case lookup fs root of None \<Rightarrow> None | Some n \<Rightarrow> walk root n tgt)"

text \<open>
  \<open>filepath.Join\<close> joins its elements with the separator and cleans the result: empty
  components and \<open>.\<close> are dropped, \<open>..\<close> removes the component before it (and nothing at the
  root). The first element is the base directory, already a path; the others are strings
  that may themselves contain separators. \<open>filepath.Dir\<close> of a clean path drops its last
  component.
\<close>

fun Split :: "string \<Rightarrow> string list" where
  "Split [] = [[]]"
| "Split (c # cs) =
     (if c = CHR ''/'' then [] # Split cs
      else (case Split cs of [] \<Rightarrow> [[c]] | w # ws \<Rightarrow> (c # w) # ws))"

definition clean_step :: "path \<Rightarrow> string \<Rightarrow> path" where
  "clean_step acc c =
     (if c = [] \<or> c = ''.'' then acc else if c = ''..'' then butlast acc else acc @ [c])"

definition Clean :: "string list \<Rightarrow> path" where
  "Clean cs = foldl clean_step [] cs"

definition filepath_Join :: "path \<Rightarrow> string list \<Rightarrow> path" where
  "filepath_Join dir elem = Clean (dir @ concat (map Split elem))"

definition filepath_Dir :: "path \<Rightarrow> path" where
  "filepath_Dir p = butlast p"

section \<open>Digests, hexadecimal text and the date\<close>

text \<open>
  \<open>sha256.Sum256\<close> is a parameter \<open>h\<close> of the stores, a function from bytes to the bytes of
  the digest. \<open>hex.EncodeToString\<close> and \<open>fmt.Sprintf("%x", \<dots>)\<close> both write two lower-case
  hexadecimal digits for each byte.
\<close>

definition hexdigit :: "nat \<Rightarrow> char" where
  "hexdigit n = ''0123456789abcdef'' ! n"

definition hex_byte :: "byte \<Rightarrow> string" where
  "hex_byte b = [hexdigit (unat b div 16), hexdigit (unat b mod 16)]"

definition EncodeToString :: "bytes \<Rightarrow> string" where
  "EncodeToString bs = concat (map hex_byte bs)"

text \<open>\<open>time.Now().UTC()\<close> is an input of \<open>Store\<close>; \<open>Format("2006/01/02")\<close> writes the year
  with at least four digits, the month and the day with two.\<close>

record Time =
  Year :: nat
  Month :: nat
  Day :: nat

definition digit :: "nat \<Rightarrow> char" where
  "digit n = ''0123456789'' ! (n mod 10)"

fun dec :: "nat \<Rightarrow> string" where
  "dec n = (if n < 10 then [digit n] else dec (n div 10) @ [digit n])"

declare dec.simps [simp del]

definition zpad :: "nat \<Rightarrow> string \<Rightarrow> string" where
  "zpad w s = replicate (w - length s) (CHR ''0'') @ s"

definition Format :: "Time \<Rightarrow> string" where
  "Format now =
     zpad 4 (dec (Year now)) @ ''/'' @ zpad 2 (dec (Month now)) @ ''/'' @ zpad 2 (dec (Day now))"

section \<open>FilesystemVault (vault.go)\<close>

text \<open>\<open>NewFilesystemVault\<close> creates the base directory.\<close>

definition NewFilesystemVault :: "node \<Rightarrow> path \<Rightarrow> node option" where
  "NewFilesystemVault fs basePath = os_MkdirAll fs basePath"

definition Vault_Store ::
  "(bytes \<Rightarrow> bytes) \<Rightarrow> path \<Rightarrow> Time \<Rightarrow> node \<Rightarrow> bytes \<Rightarrow> (error + string) \<times> node" where
  "Vault_Store h basePath now fs cont =
     (let hexHash = EncodeToString (h cont);
          dir = filepath_Join basePath [Format now]
      in case os_MkdirAll fs dir of
           None \<Rightarrow> (Inl ErrCreateDateDir, fs)
         | Some fs1 \<Rightarrow>
             (let path = filepath_Join dir [hexHash @ ''.vault'']
              in if os_Stat fs1 path then (Inr (''vault://'' @ hexHash), fs1)
                 else (case os_WriteFile fs1 path cont of
                         None \<Rightarrow> (Inl ErrWriteVaultFile, fs1)
                       | Some fs2 \<Rightarrow> (Inr (''vault://'' @ hexHash), fs2))))"

definition Vault_Retrieve :: "path \<Rightarrow> node \<Rightarrow> string \<Rightarrow> error + bytes" where
  "Vault_Retrieve basePath fs ref =
     (let hexHash = (if length ref > 8 \<and> take 8 ref = ''vault://'' then drop 8 ref else ref)
      in case filepath_Walk fs basePath (hexHash @ ''.vault'') of
           None \<Rightarrow> Inl (ErrRefNotFound ref)
         | Some found \<Rightarrow>
             (case os_ReadFile fs found of
                None \<Rightarrow> Inl (ErrOS ''read'')
              | Some d \<Rightarrow> Inr d))"

section \<open>FilesystemBackend (storage/filesystem.go)\<close>

text \<open>
  Modelled from the spec: the struct \<open>storage.Reference\<close> is declared outside the given
  sources. Its fields are the four that \<open>FilesystemBackend.Store\<close> fills in and that the
  specification lists: locator, checksum, encryption flag and size.
\<close>

record Reference =
  URI :: string
  Checksum :: string
  Encrypted :: bool
  SizeBytes :: int

definition Backend_Store ::
  "(bytes \<Rightarrow> bytes) \<Rightarrow> path \<Rightarrow> node \<Rightarrow> string \<Rightarrow> string \<Rightarrow> string \<Rightarrow> bytes
     \<Rightarrow> (error + Reference) \<times> node" where
  "Backend_Store h basePath fs traceID spanID attrKey dat =
     (let filePath = filepath_Join basePath [traceID, spanID, attrKey];
          fileDir = filepath_Dir filePath
      in case os_MkdirAll fs fileDir of
           None \<Rightarrow> (Inl ErrCreateObjectDir, fs)
         | Some fs1 \<Rightarrow>
             (let checksum = EncodeToString (h dat)
              in case os_WriteFile fs1 filePath dat of
                   None \<Rightarrow> (Inl ErrWriteObject, fs1)
                 | Some fs2 \<Rightarrow>
                     (Inr \<lparr> URI = ''promptvault://fs/'' @ traceID @ ''/'' @ spanID @ ''/'' @ attrKey,
                            Checksum = checksum, Encrypted = False,
                            SizeBytes = int (length dat) \<rparr>, fs2)))"

text \<open>
  \<open>fmt.Sscanf(ref.URI, "promptvault://fs/%s", &traceID)\<close>: the literal text must match the
  input; then white space is skipped, where a newline is an error; then the end of the
  input is an error; then a word is read. The word is not used by \<open>Retrieve\<close>, so the model
  returns only whether the scan succeeded. \<open>strip_space\<close> removes one white space rune other
  than the newline, in its UTF-8 form.
\<close>

definition strip_space :: "string \<Rightarrow> string option" where
  "strip_space s =
     (let b = map (of_char :: char \<Rightarrow> nat) s
      in if b = [] then None
         else if hd b = 9 \<or> hd b = 11 \<or> hd b = 12 \<or> hd b = 13 \<or> hd b = 32 then Some (drop 1 s)
         else if take 2 b = [194, 133] \<or> take 2 b = [194, 160] then Some (drop 2 s)
         else if take 3 b = [225, 154, 128]
                 \<or> (take 2 b = [226, 128] \<and> 3 \<le> length b
                      \<and> (128 \<le> b ! 2 \<and> b ! 2 \<le> 138 \<or> b ! 2 = 168 \<or> b ! 2 = 169 \<or> b ! 2 = 175))
                 \<or> take 3 b = [226, 129, 159]
                 \<or> take 3 b = [227, 128, 128]
              then Some (drop 3 s)
         else None)"

function SkipSpace :: "string \<Rightarrow> string option" where
  "SkipSpace s =
     (if s = [] then Some []
      else if hd s = CHR 0x0A then None
      else (case strip_space s of None \<Rightarrow> Some s | Some r \<Rightarrow> SkipSpace r))"
  by pat_completeness auto
termination
proof (relation "measure length")
  show "wf (measure length)" by simp
next
  fix s r :: string
  assume "s \<noteq> []" and "strip_space s = Some r"
  then have "length r < length s"
    by (auto simp: strip_space_def Let_def split: if_splits)
  then show "(r, s) \<in> measure length" by simp
qed

declare SkipSpace.simps [simp del]

definition Sscanf_ok :: "string \<Rightarrow> bool" where
  "Sscanf_ok input =
     (if take 17 input \<noteq> ''promptvault://fs/'' then False
      else (case SkipSpace (drop 17 input) of None \<Rightarrow> False | Some r \<Rightarrow> r \<noteq> []))"

definition Backend_Retrieve ::
  "(bytes \<Rightarrow> bytes) \<Rightarrow> path \<Rightarrow> node \<Rightarrow> Reference \<Rightarrow> error + bytes" where
  "Backend_Retrieve h basePath fs ref =
     (if \<not> Sscanf_ok (URI ref) then Inl (ErrInvalidURI (URI ref))
      else (let path = drop (length ''promptvault://fs/'') (URI ref);
                filePath = filepath_Join basePath [path]
            in case os_ReadFile fs filePath of
                 None \<Rightarrow> Inl ErrReadObject
               | Some dat \<Rightarrow>
                   (let checksum = EncodeToString (h dat)
                    in if checksum \<noteq> Checksum ref
                       then Inl (ErrChecksumMismatch (Checksum ref) checksum)
                       else Inr dat)))"
section \<open>Test doubles and fixtures\<close>

definition failing_vault :: "unit \<Rightarrow> bytes \<Rightarrow> (error + string) \<times> unit" where
  "failing_vault v c = (Inl (ErrOther ''read-only file system''), v)"

definition recording_vault :: "bytes list \<Rightarrow> bytes \<Rightarrow> (error + string) \<times> bytes list" where
  "recording_vault v c = (Inr ''vault://ref'', v @ [c])"

definition sink :: "traces \<Rightarrow> error option" where
  "sink td = None"

definition policy :: "string list \<Rightarrow> int \<Rightarrow> string \<Rightarrow> Config" where
  "policy ks n md =
     \<lparr> Storage = Storage createDefaultConfig,
       Vault = \<lparr> Keys = ks, SizeThreshold = n, Mode = md \<rparr> \<rparr>"

definition makeSpan :: "Map \<Rightarrow> SpanEvent list \<Rightarrow> Span" where
  "makeSpan attrs evs =
     \<lparr> Name = ''test-span'', TraceID = ''0102030405060708090a0b0c0d0e0f10'',
       SpanID = ''0102030405060708'', Attributes = attrs, Events = evs \<rparr>"

definition makeTestTraces :: "Span \<Rightarrow> traces" where
  "makeTestTraces sp = \<lparr> ResourceSpans = [\<lparr> ScopeSpans = [\<lparr> Spans = [sp] \<rparr>] \<rparr>] \<rparr>"

definition spans_of :: "traces \<Rightarrow> Span list" where
  "spans_of td = concat (map Spans (concat (map ScopeSpans (ResourceSpans td))))"


text \<open>The entries of a map under one key, as a multiset (a map may hold a key twice), and
  the test for a string value.\<close>

definition entries :: "string \<Rightarrow> Map \<Rightarrow> (string \<times> val) multiset" where
  "entries k m = filter_mset (\<lambda>e. fst e = k) (mset m)"

fun is_string :: "val \<Rightarrow> bool" where
  "is_string (ValueStr s) = True"
| "is_string _ = False"

text \<open>The number of entries of a multiset whose value is not a string.\<close>

definition ns :: "(string \<times> val) multiset \<Rightarrow> nat" where
  "ns M = size (filter_mset (\<lambda>e. \<not> is_string (snd e)) M)"

text \<open>
  A stand-in for \<open>sha256.Sum256\<close> in examples: 32 bytes, made of the first 31 bytes of the
  input, padded with zeros, and the length of the input modulo 256. It is not a hash
  function; the examples need a total function with a result of 32 bytes.
\<close>

definition toy_sum256 :: "bytes \<Rightarrow> bytes" where
  "toy_sum256 d = take 31 (d @ replicate 31 0) @ [of_nat (length d)]"

text \<open>The reference and the file system after \<open>FilesystemBackend.Store\<close> of \<open>hello\<close> for the
  span of the golden test, in an empty file system with the base directory \<open>/data/vault\<close>;
  a date for \<open>FilesystemVault.Store\<close>, and the file system after it has stored
  \<open>hello\<close> on that date.\<close>

definition hello_ref :: Reference where
  "hello_ref =
     \<lparr> URI = ''promptvault://fs/0102030405060708090a0b0c0d0e0f10/0102030405060708/gen_ai.prompt'',
       Checksum = ''68656c6c6f000000000000000000000000000000000000000000000000000005'',
       Encrypted = False, SizeBytes = 5 \<rparr>"

definition hello_fs :: node where
  "hello_fs =
     DirNode [(''data'', DirNode [(''vault'', DirNode [(''0102030405060708090a0b0c0d0e0f10'',
       DirNode [(''0102030405060708'',
         DirNode [(''gen_ai.prompt'', FileNode (bytes_of_string ''hello''))])])])])]"

definition test_time :: Time where
  "test_time = \<lparr> Year = 2024, Month = 3, Day = 9 \<rparr>"

definition hello_vault :: node where
  "hello_vault =
     DirNode [(''data'', DirNode [(''vault'', DirNode [(''2024'', DirNode [(''03'', DirNode [(''09'',
       DirNode [(''68656c6c6f000000000000000000000000000000000000000000000000000005'' @ ''.vault'',
                 FileNode (bytes_of_string ''hello''))])])])])])]"
section \<open>Properties of the attribute offload pipeline\<close>

lemma foldl_keys_lookup:
  "foldl (\<lambda>m k. m(k \<mapsto> True)) m0 ks k = (if k \<in> set ks then Some True else m0 k)"
  by (induction ks arbitrary: m0) auto

lemma inKeysSet_new:
  "inKeysSet (newVaultProcessor cfg vlt nxt) k = (k \<in> set (Keys (Vault cfg)))"
  by (simp add: inKeysSet_def newVaultProcessor_def foldl_keys_lookup)

lemma config_new [simp]: "config (newVaultProcessor cfg vlt nxt) = cfg"
  and vault_new [simp]: "vault (newVaultProcessor cfg vlt nxt) = vlt"
  and next_new [simp]: "nextConsumer (newVaultProcessor cfg vlt nxt) = nxt"
  by (simp_all add: newVaultProcessor_def)

lemma collect_filter:
  "collect p attrs =
     map (\<lambda>(k, v). \<lparr> key = k, content = Str v \<rparr>)
       (filter (\<lambda>(k, v). inKeysSet p k
          \<and> \<not> int (length (Str v)) < SizeThreshold (Vault (config p))) attrs)"
  by (induction attrs) (auto split: if_splits)

lemma collect_mem:
  "e \<in> set (collect p attrs) \<longleftrightarrow>
     (\<exists>v. (key e, v) \<in> set attrs \<and> content e = Str v \<and> inKeysSet p (key e)
        \<and> \<not> int (length (content e)) < SizeThreshold (Vault (config p)))"
  by (cases e) (auto simp: collect_filter image_iff)

lemma offload_fail_all:
  "(\<And>v c. isl (fst (vault p v c))) \<Longrightarrow> fst (offload p es (attrs, v, lg)) = attrs"
proof (induction es arbitrary: v lg)
  case Nil
  then show ?case by simp
next
  case (Cons e es)
  obtain r v' where r: "vault p v (bytes_of_string (content e)) = (r, v')"
    by (cases "vault p v (bytes_of_string (content e))")
  with Cons.prems[of v "bytes_of_string (content e)"] obtain err where "r = Inl err"
    by (cases r) auto
  with r Cons show ?case by simp
qed


lemma filter_PutStr_other:
  "k' \<noteq> k \<Longrightarrow> filter (\<lambda>e. fst e = k') (PutStr m k v) = filter (\<lambda>e. fst e = k') m"
  by (induction m) auto

lemma mset_Remove_other:
  "k' \<noteq> k \<Longrightarrow> filter_mset (\<lambda>e. fst e = k') (mset (Remove m k)) = filter_mset (\<lambda>e. fst e = k') (mset m)"
proof (induction m)
  case Nil
  then show ?case by simp
next
  case (Cons a m)
  obtain ka x where a: "a = (ka, x)" by (cases a)
  show ?case
  proof (cases "ka = k")
    case True
    have "m \<noteq> [] \<Longrightarrow> mset (last m # butlast m) = mset m"
      by (metis append_butlast_last_id mset.simps(2) mset_append union_mset_add_mset_right add.right_neutral mset.simps(1) add.commute)
    with True a Cons.prems show ?thesis by auto
  next
    case False
    with a Cons show ?thesis by simp
  qed
qed


lemma vaultSpan_unchanged:
  "fst (offload p (collect p (Attributes span)) (Attributes span, fst st, snd st)) = Attributes span
   \<Longrightarrow> fst (vaultSpan p span st) = span"
  by (auto simp: vaultSpan_def split: prod.splits)

lemma vaultSpans_fail_all:
  "(\<And>v c. isl (fst (vault p v c))) \<Longrightarrow> fst (vaultSpans p ss st) = ss"
proof (induction ss arbitrary: st)
  case Nil
  then show ?case by simp
next
  case (Cons s ss)
  have "fst (vaultSpan p s st) = s"
    by (rule vaultSpan_unchanged) (rule offload_fail_all, rule Cons.prems)
  moreover have "fst (vaultSpans p ss (snd (vaultSpan p s st))) = ss"
    by (rule Cons.IH) (rule Cons.prems)
  ultimately show ?case by (auto split: prod.splits)
qed

lemma vaultScopes_fail_all:
  "(\<And>v c. isl (fst (vault p v c))) \<Longrightarrow> fst (vaultScopes p gs st) = gs"
proof (induction gs arbitrary: st)
  case Nil
  then show ?case by simp
next
  case (Cons g gs)
  have "fst (vaultSpans p (Spans g) st) = Spans g"
    by (rule vaultSpans_fail_all) (rule Cons.prems)
  moreover have "fst (vaultScopes p gs (snd (vaultSpans p (Spans g) st))) = gs"
    by (rule Cons.IH) (rule Cons.prems)
  ultimately show ?case by (auto split: prod.splits)
qed

lemma vaultResources_fail_all:
  "(\<And>v c. isl (fst (vault p v c))) \<Longrightarrow> fst (vaultResources p rs st) = rs"
proof (induction rs arbitrary: st)
  case Nil
  then show ?case by simp
next
  case (Cons r rs)
  have "fst (vaultScopes p (ScopeSpans r) st) = ScopeSpans r"
    by (rule vaultScopes_fail_all) (rule Cons.prems)
  moreover have "fst (vaultResources p rs (snd (vaultScopes p (ScopeSpans r) st))) = rs"
    by (rule Cons.IH) (rule Cons.prems)
  ultimately show ?case by (auto split: prod.splits)
qed

text \<open>
  Claim C3. \<open>ConsumeTraces\<close> returns a non-nil error exactly when the downstream
  \<open>ConsumeTraces\<close> call on the forwarded batch returns one. When \<open>Store\<close> fails for a pending
  entry, the loop logs a warning, leaves the attributes as they are and goes on with the
  remaining entries; when \<open>Store\<close> fails on every call, the forwarded batch is the input
  batch.
\<close>

theorem ConsumeTraces_error_iff_downstream:
  "(fst (ConsumeTraces p td st) \<noteq> None \<longleftrightarrow>
      nextConsumer p (fst (snd (ConsumeTraces p td st))) \<noteq> None)
   \<and> (vault p v (bytes_of_string (content e)) = (Inl err, v') \<longrightarrow>
        offload p (e # es) (attrs, v, lg) =
          offload p es (attrs, v', lg @ [Warn ''vault store failed'' (key e) err]))
   \<and> ((\<forall>v c. isl (fst (vault p v c))) \<longrightarrow>
        fst (snd (ConsumeTraces p td st)) = td
        \<and> fst (ConsumeTraces p td st) = nextConsumer p td)"
proof (intro conjI impI)
  show "fst (ConsumeTraces p td st) \<noteq> None \<longleftrightarrow>
      nextConsumer p (fst (snd (ConsumeTraces p td st))) \<noteq> None"
    by (simp add: ConsumeTraces_def split: prod.splits)
next
  assume "vault p v (bytes_of_string (content e)) = (Inl err, v')"
  then show "offload p (e # es) (attrs, v, lg) =
          offload p es (attrs, v', lg @ [Warn ''vault store failed'' (key e) err])"
    by simp
next
  assume fails: "\<forall>v c. isl (fst (vault p v c))"
  then have "fst (vaultResources p (ResourceSpans td) st) = ResourceSpans td"
    by (intro vaultResources_fail_all) simp
  then show td: "fst (snd (ConsumeTraces p td st)) = td"
    by (auto simp: ConsumeTraces_def split: prod.splits)
  show "fst (ConsumeTraces p td st) = nextConsumer p td"
    using td by (auto simp: ConsumeTraces_def split: prod.splits)
qed


theorem ConsumeTraces_error_iff_downstream_witness:
  "vault (newVaultProcessor (policy [''gen_ai.prompt''] 0 ''replace_with_ref'') failing_vault sink)
      () (bytes_of_string (content \<lparr> key = ''gen_ai.prompt'', content = ''secret'' \<rparr>))
     = (Inl (ErrOther ''read-only file system''), ())
   \<and> (\<forall>v c. isl (fst (vault (newVaultProcessor (policy [''gen_ai.prompt''] 0 ''replace_with_ref'')
                                failing_vault sink) v c)))
   \<and> fst (snd (ConsumeTraces
        (newVaultProcessor (policy [''gen_ai.prompt''] 0 ''replace_with_ref'') failing_vault sink)
        (makeTestTraces (makeSpan [(''gen_ai.prompt'', ValueStr ''secret'')] []))
        ((), [])))
      = makeTestTraces (makeSpan [(''gen_ai.prompt'', ValueStr ''secret'')] [])
   \<and> fst (ConsumeTraces
        (newVaultProcessor (policy [''gen_ai.prompt''] 0 ''replace_with_ref'') failing_vault sink)
        (makeTestTraces (makeSpan [(''gen_ai.prompt'', ValueStr ''secret'')] []))
        ((), [])) = None
   \<and> offload
        (newVaultProcessor (policy [''gen_ai.prompt''] 0 ''replace_with_ref'') failing_vault sink)
        [\<lparr> key = ''gen_ai.prompt'', content = ''secret'' \<rparr>]
        ([(''gen_ai.prompt'', ValueStr ''secret'')], (), [])
      = ([(''gen_ai.prompt'', ValueStr ''secret'')], (),
         [Warn ''vault store failed'' ''gen_ai.prompt'' (ErrOther ''read-only file system'')])"
  using ConsumeTraces_error_iff_downstream
    [of "newVaultProcessor (policy [''gen_ai.prompt''] 0 ''replace_with_ref'') failing_vault sink"
        "makeTestTraces (makeSpan [(''gen_ai.prompt'', ValueStr ''secret'')] [])"
        "((), [])" "()" "\<lparr> key = ''gen_ai.prompt'', content = ''secret'' \<rparr>"
        "ErrOther ''read-only file system''" "()" "[]"
        "[(''gen_ai.prompt'', ValueStr ''secret'')]" "[]"]
  by (simp add: failing_vault_def sink_def)


lemma offload_no_rewrite:
  "Mode (Vault (config p)) \<noteq> ''replace_with_ref'' \<Longrightarrow> Mode (Vault (config p)) \<noteq> ''remove''
   \<Longrightarrow> fst (offload p es (attrs, v, lg)) = attrs"
proof (induction es arbitrary: v lg)
  case Nil
  then show ?case by simp
next
  case (Cons e es)
  then show ?case
    by (cases "vault p v (bytes_of_string (content e))")
       (auto simp: rewrite_def split: sum.splits)
qed


text \<open>
  A mode that is neither of the two cases of the \<open>switch\<close> leaves every span as it is,
  whatever the store returns.
\<close>

lemma vaultSpan_other_mode:
  "Mode (Vault (config p)) \<noteq> ''replace_with_ref'' \<Longrightarrow> Mode (Vault (config p)) \<noteq> ''remove''
   \<Longrightarrow> fst (vaultSpan p span st) = span"
  by (rule vaultSpan_unchanged, rule offload_no_rewrite)

text \<open>
  Claim C5. In mode \<open>keep_and_ref\<close> the original value is to stay and \<open>key.vault_ref\<close> is to
  be set to the reference. The \<open>switch\<close> on the mode has the cases \<open>replace_with_ref\<close> and
  \<open>remove\<close>, which both write \<open>key.vault_ref\<close>, and no case for \<open>keep_and_ref\<close>. At the
  fixture \<open>keep_and_ref_preserves_both\<close> of the golden test, with a store that succeeds, the
  content is stored and the line \<open>vaulted attribute\<close> is logged with the reference, the
  original value is kept, and the reference is dropped: the span comes out as it went in
  and has no \<open>gen_ai.input.messages.vault_ref\<close>. Here the code departs from the claim.
\<close>

theorem keep_and_ref_reference_dropped:
  "vaultSpan (newVaultProcessor (policy [''gen_ai.input.messages''] 0 ''keep_and_ref'') recording_vault sink)
      (makeSpan [(''gen_ai.input.messages'', ValueStr ''Keep me around but also vault me for durability'')] []) ([], [])
     = ((makeSpan [(''gen_ai.input.messages'', ValueStr ''Keep me around but also vault me for durability'')] []),
        [bytes_of_string ''Keep me around but also vault me for durability''],
        [Debug ''vaulted attribute'' ''gen_ai.input.messages'' ''vault://ref''
           (length ''Keep me around but also vault me for durability'')])
   \<and> Get (Attributes (fst (vaultSpan (newVaultProcessor (policy [''gen_ai.input.messages''] 0 ''keep_and_ref'') recording_vault sink)
             (makeSpan [(''gen_ai.input.messages'', ValueStr ''Keep me around but also vault me for durability'')] []) ([], []))))
        ''gen_ai.input.messages.vault_ref'' = None"
  by (simp add: vaultSpan_def inKeysSet_new policy_def makeSpan_def recording_vault_def rewrite_def)

lemma Events_vaultSpan [simp]: "Events (fst (vaultSpan p span st)) = Events span"
  by (auto simp: vaultSpan_def split: prod.splits)

lemma Events_vaultSpans: "map Events (fst (vaultSpans p ss st)) = map Events ss"
proof (induction ss arbitrary: st)
  case Nil
  then show ?case by simp
next
  case (Cons s ss)
  obtain s' st' where a: "vaultSpan p s st = (s', st')"
    by (cases "vaultSpan p s st")
  obtain ss' st'' where b: "vaultSpans p ss st' = (ss', st'')"
    by (cases "vaultSpans p ss st'")
  have "Events s' = Events s"
    using Events_vaultSpan[of p s st] a by simp
  moreover have "map Events ss' = map Events ss"
    using Cons.IH[of st'] b by simp
  ultimately show ?case using a b by simp
qed

lemma Events_vaultScopes:
  "map Events (concat (map Spans (fst (vaultScopes p gs st)))) = map Events (concat (map Spans gs))"
proof (induction gs arbitrary: st)
  case Nil
  then show ?case by simp
next
  case (Cons g gs)
  obtain ss' st' where a: "vaultSpans p (Spans g) st = (ss', st')"
    by (cases "vaultSpans p (Spans g) st")
  obtain gs' st'' where b: "vaultScopes p gs st' = (gs', st'')"
    by (cases "vaultScopes p gs st'")
  have "map Events ss' = map Events (Spans g)"
    using Events_vaultSpans[of p "Spans g" st] a by simp
  moreover have "map Events (concat (map Spans gs')) = map Events (concat (map Spans gs))"
    using Cons.IH[of st'] b by simp
  ultimately show ?case using a b by simp
qed

lemma Events_vaultResources:
  "map Events (concat (map Spans (concat (map ScopeSpans (fst (vaultResources p rs st))))))
     = map Events (concat (map Spans (concat (map ScopeSpans rs))))"
proof (induction rs arbitrary: st)
  case Nil
  then show ?case by simp
next
  case (Cons r rs)
  obtain gs' st' where a: "vaultScopes p (ScopeSpans r) st = (gs', st')"
    by (cases "vaultScopes p (ScopeSpans r) st")
  obtain rs' st'' where b: "vaultResources p rs st' = (rs', st'')"
    by (cases "vaultResources p rs st'")
  have "map Events (concat (map Spans gs')) = map Events (concat (map Spans (ScopeSpans r)))"
    using Events_vaultScopes[of p "ScopeSpans r" st] a by simp
  moreover have "map Events (concat (map Spans (concat (map ScopeSpans rs'))))
     = map Events (concat (map Spans (concat (map ScopeSpans rs))))"
    using Cons.IH[of st'] b by simp
  ultimately show ?case using a b by simp
qed

text \<open>
  \<open>ConsumeTraces\<close> visits the attributes of each span and nothing else: every span of the
  forwarded batch carries exactly the events of the input span, names and attributes,
  whatever the policy says and whatever the store does.
\<close>

lemma events_forwarded_untouched:
  "map Events (spans_of (fst (snd (ConsumeTraces p td st)))) = map Events (spans_of td)"
  using Events_vaultResources[of p "ResourceSpans td" st]
  by (auto simp: ConsumeTraces_def spans_of_def split: prod.splits)

text \<open>
  Claim C7. An eligible attribute on a span event is to be offloaded with the steps of a
  span attribute. \<open>vaultSpan\<close> reads \<open>span.Attributes()\<close> only and nothing in the processor
  calls \<open>span.Events()\<close>, although \<open>FilesystemBackend.Store\<close> documents attribute keys of
  events and \<open>TestGoldenVault_SpanEvents\<close> leaves the assertion of the reference as a
  \<open>TODO\<close>. At the input of that test (policy key \<open>gen_ai.prompt\<close>, threshold 0, mode
  \<open>replace_with_ref\<close>, a store that accepts everything) the batch is forwarded as it came
  in, the event attribute still holds the prompt, and \<open>Store\<close> is never called. Here the
  code departs from the claim.
\<close>

theorem event_attribute_not_offloaded:
  "fst (snd (ConsumeTraces
      (newVaultProcessor (policy [''gen_ai.prompt''] 0 ''replace_with_ref'') recording_vault sink)
      (makeTestTraces (makeSpan []
         [\<lparr> EventName = ''gen_ai.prompt'',
            EventAttributes = [(''gen_ai.prompt'',
               ValueStr ''A long prompt that should be vaulted from the event attributes'')] \<rparr>]))
      ([], [])))
     = makeTestTraces (makeSpan []
         [\<lparr> EventName = ''gen_ai.prompt'',
            EventAttributes = [(''gen_ai.prompt'',
               ValueStr ''A long prompt that should be vaulted from the event attributes'')] \<rparr>])
   \<and> fst (snd (snd (ConsumeTraces
      (newVaultProcessor (policy [''gen_ai.prompt''] 0 ''replace_with_ref'') recording_vault sink)
      (makeTestTraces (makeSpan []
         [\<lparr> EventName = ''gen_ai.prompt'',
            EventAttributes = [(''gen_ai.prompt'',
               ValueStr ''A long prompt that should be vaulted from the event attributes'')] \<rparr>]))
      ([], [])))) = []"
  by (simp add: ConsumeTraces_def vaultSpan_def makeTestTraces_def makeSpan_def)

lemma entries_PutStr_other:
  "k' \<noteq> k \<Longrightarrow> filter_mset (\<lambda>e. fst e = k') (mset (PutStr m k v))
     = filter_mset (\<lambda>e. fst e = k') (mset m)"
  using filter_PutStr_other[of k' k m v] by (metis mset_filter)

lemma entries_rewrite_other:
  "k' \<noteq> k \<Longrightarrow> k' \<noteq> k @ ''.vault_ref'' \<Longrightarrow>
   filter_mset (\<lambda>e. fst e = k') (mset (rewrite md k ref m))
     = filter_mset (\<lambda>e. fst e = k') (mset m)"
  by (simp add: rewrite_def entries_PutStr_other mset_Remove_other)

lemma entries_offload_other:
  "(\<And>e. e \<in> set es \<Longrightarrow> key e \<noteq> k' \<and> key e @ ''.vault_ref'' \<noteq> k') \<Longrightarrow>
   filter_mset (\<lambda>e. fst e = k') (mset (fst (offload p es (attrs, v, lg))))
     = filter_mset (\<lambda>e. fst e = k') (mset attrs)"
proof (induction es arbitrary: attrs v lg)
  case Nil
  then show ?case by simp
next
  case (Cons e es)
  have e: "k' \<noteq> key e" "k' \<noteq> key e @ ''.vault_ref''"
    using Cons.prems[of e] by auto
  have rest: "\<And>a w l. filter_mset (\<lambda>e. fst e = k') (mset (fst (offload p es (a, w, l))))
     = filter_mset (\<lambda>e. fst e = k') (mset a)"
    by (rule Cons.IH) (simp add: Cons.prems)
  obtain r v' where r: "vault p v (bytes_of_string (content e)) = (r, v')"
    by (cases "vault p v (bytes_of_string (content e))")
  show ?case
  proof (cases r)
    case (Inl err)
    with r rest show ?thesis by simp
  next
    case (Inr ref)
    with r rest entries_rewrite_other[OF e] show ?thesis by simp
  qed
qed

lemma Get_None_entries:
  "Get m k = None \<longleftrightarrow> filter_mset (\<lambda>e. fst e = k) (mset m) = {#}"
  by (induction m) auto

lemma Get_Some_entries:
  "distinct (map fst m) \<Longrightarrow> Get m k = Some v \<Longrightarrow>
   filter_mset (\<lambda>e. fst e = k) (mset m) = {#(k, v)#}"
proof (induction m)
  case Nil
  then show ?case by simp
next
  case (Cons a m)
  obtain ka x where a: "a = (ka, x)" by (cases a)
  show ?case
  proof (cases "ka = k")
    case True
    then have "k \<notin> fst ` set m" using Cons.prems a by auto
    then have "Get m k = None"
      by (induction m) auto
    then have "filter_mset (\<lambda>e. fst e = k) (mset m) = {#}"
      by (simp add: Get_None_entries)
    with True a Cons.prems show ?thesis by simp
  next
    case False
    with a Cons show ?thesis by simp
  qed
qed

lemma Get_Some_mem: "Get m k = Some v \<Longrightarrow> (k, v) \<in># filter_mset (\<lambda>e. fst e = k) (mset m)"
  by (induction m) (auto split: if_splits)

lemma Get_eq_of_entries:
  assumes "distinct (map fst m)"
    and "filter_mset (\<lambda>e. fst e = k) (mset m') = filter_mset (\<lambda>e. fst e = k) (mset m)"
  shows "Get m' k = Get m k"
proof (cases "Get m k")
  case None
  then have "filter_mset (\<lambda>e. fst e = k) (mset m') = {#}"
    using assms(2) Get_None_entries[of m k] by simp
  then have "Get m' k = None"
    using Get_None_entries[of m' k] by simp
  with None show ?thesis by simp
next
  case (Some v)
  then have one: "filter_mset (\<lambda>e. fst e = k) (mset m') = {#(k, v)#}"
    using Get_Some_entries[OF assms(1) Some] assms(2) by simp
  show ?thesis
  proof (cases "Get m' k")
    case None
    then show ?thesis using one Get_None_entries[of m' k] by simp
  next
    case (Some v')
    from Get_Some_mem[OF this] one have "v' = v" by simp
    with Some \<open>Get m k = Some v\<close> show ?thesis by simp
  qed
qed

text \<open>
  Claim C8, as the code has it. An attribute whose key is not in the policy's key set, and
  is not \<open>k.vault_ref\<close> for a key \<open>k\<close> of the policy, is unchanged in the output: the entries
  under that key are the same, and when the keys of the span are distinct \<open>Get\<close> returns
  the same value (its position may change, since \<open>Remove\<close> moves the last entry).
\<close>

theorem non_eligible_passthrough:
  "p = newVaultProcessor cfg vlt nxt \<Longrightarrow> k' \<notin> set (Keys (Vault cfg)) \<Longrightarrow>
   (\<forall>k \<in> set (Keys (Vault cfg)). k' \<noteq> k @ ''.vault_ref'') \<Longrightarrow>
   filter_mset (\<lambda>e. fst e = k') (mset (Attributes (fst (vaultSpan p span st))))
     = filter_mset (\<lambda>e. fst e = k') (mset (Attributes span))
   \<and> (distinct (map fst (Attributes span)) \<longrightarrow>
        Get (Attributes (fst (vaultSpan p span st))) k' = Get (Attributes span) k')"
proof -
  assume p: "p = newVaultProcessor cfg vlt nxt" and k': "k' \<notin> set (Keys (Vault cfg))"
    and sib: "\<forall>k \<in> set (Keys (Vault cfg)). k' \<noteq> k @ ''.vault_ref''"
  have pending: "\<And>e. e \<in> set (collect p (Attributes span)) \<Longrightarrow>
      key e \<noteq> k' \<and> key e @ ''.vault_ref'' \<noteq> k'"
    using p k' sib by (auto simp: collect_mem inKeysSet_new)
  have "Attributes (fst (vaultSpan p span st))
      = fst (offload p (collect p (Attributes span)) (Attributes span, fst st, snd st))"
    by (auto simp: vaultSpan_def split: prod.splits)
  then have same: "filter_mset (\<lambda>e. fst e = k') (mset (Attributes (fst (vaultSpan p span st))))
     = filter_mset (\<lambda>e. fst e = k') (mset (Attributes span))"
    using entries_offload_other[of "collect p (Attributes span)" k' p "Attributes span" "fst st" "snd st"]
      pending by simp
  then show ?thesis using Get_eq_of_entries by blast
qed

theorem non_eligible_passthrough_witness:
  "newVaultProcessor (policy [''gen_ai.prompt''] 0 ''remove'') recording_vault sink
     = newVaultProcessor (policy [''gen_ai.prompt''] 0 ''remove'') recording_vault sink
   \<and> ''http.method'' \<notin> set (Keys (Vault (policy [''gen_ai.prompt''] 0 ''remove'')))
   \<and> ''http.method'' \<noteq> ''gen_ai.prompt'' @ ''.vault_ref''
   \<and> distinct (map fst (Attributes (makeSpan [(''gen_ai.prompt'', ValueStr ''secret''),
                   (''http.method'', ValueStr ''POST'')] [])))
   \<and> Get (Attributes (fst (vaultSpan
        (newVaultProcessor (policy [''gen_ai.prompt''] 0 ''remove'') recording_vault sink)
        (makeSpan [(''gen_ai.prompt'', ValueStr ''secret''),
                   (''http.method'', ValueStr ''POST'')] [])
        ([], [])))) ''http.method'' = Some (ValueStr ''POST'')"
  using non_eligible_passthrough
    [of "newVaultProcessor (policy [''gen_ai.prompt''] 0 ''remove'') recording_vault sink"
        "policy [''gen_ai.prompt''] 0 ''remove''" recording_vault sink "''http.method''"
        "makeSpan [(''gen_ai.prompt'', ValueStr ''secret''), (''http.method'', ValueStr ''POST'')] []"
        "([], [])"]
  by (simp add: policy_def makeSpan_def)

text \<open>
  The claim as the specification states it fails for a pre-existing attribute named
  \<open>k.vault_ref\<close>: it is not in the key set, and offloading \<open>k\<close> overwrites it with the
  reference.
\<close>

theorem non_eligible_passthrough_counterexample:
  "''gen_ai.prompt.vault_ref'' \<notin> set (Keys (Vault (policy [''gen_ai.prompt''] 0 ''replace_with_ref'')))
   \<and> Get (Attributes (makeSpan [(''gen_ai.prompt'', ValueStr ''secret''),
                                (''gen_ai.prompt.vault_ref'', ValueStr ''kept'')] []))
        ''gen_ai.prompt.vault_ref'' = Some (ValueStr ''kept'')
   \<and> Get (Attributes (fst (vaultSpan
        (newVaultProcessor (policy [''gen_ai.prompt''] 0 ''replace_with_ref'') recording_vault sink)
        (makeSpan [(''gen_ai.prompt'', ValueStr ''secret''),
                   (''gen_ai.prompt.vault_ref'', ValueStr ''kept'')] [])
        ([], []))))
        ''gen_ai.prompt.vault_ref'' = Some (ValueStr ''vault://ref'')"
  by (simp add: vaultSpan_def inKeysSet_new policy_def makeSpan_def recording_vault_def rewrite_def)




lemma mset_swap_last: "m \<noteq> [] \<Longrightarrow> mset (last m # butlast m) = mset m"
  by (metis append_butlast_last_id mset.simps(2) mset_append union_mset_add_mset_right
      add.right_neutral mset.simps(1) add.commute)

lemma entries_Cons:
  "entries k ((ka, x) # m) = (if ka = k then add_mset (ka, x) (entries k m) else entries k m)"
  by (simp add: entries_def)

lemma entries_Remove_same:
  "entries k (Remove m k) =
     (case Get m k of None \<Rightarrow> entries k m | Some v \<Rightarrow> entries k m - {#(k, v)#})"
proof (induction m)
  case Nil
  then show ?case by simp
next
  case (Cons a m)
  obtain ka x where a: "a = (ka, x)" by (cases a)
  show ?case
  proof (cases "ka = k")
    case True
    have "entries k (if m = [] then [] else last m # butlast m) = entries k m"
      using mset_swap_last[of m] by (simp add: entries_def)
    with True a show ?thesis by (simp add: entries_Cons)
  next
    case False
    with a Cons show ?thesis by (simp add: entries_Cons split: option.split)
  qed
qed

lemma entries_PutStr_same:
  "entries k (PutStr m k r) =
     (case Get m k of None \<Rightarrow> add_mset (k, ValueStr r) (entries k m)
      | Some v \<Rightarrow> add_mset (k, ValueStr r) (entries k m - {#(k, v)#}))"
  by (induction m) (auto simp: entries_Cons split: option.split)

lemma entries_other:
  "k2 \<noteq> k \<Longrightarrow> entries k (Remove m k2) = entries k m"
  "k2 \<noteq> k \<Longrightarrow> entries k (PutStr m k2 r) = entries k m"
  by (simp_all add: entries_def mset_Remove_other entries_PutStr_other)

lemma Get_entries:
  "Get m k = None \<Longrightarrow> entries k m = {#}"
  "Get m k = Some v \<Longrightarrow> (k, v) \<in># entries k m"
  using Get_None_entries[of m k] Get_Some_mem[of m k v] by (simp_all add: entries_def)


lemma ns_simps [simp]:
  "ns {#} = 0"
  "ns (add_mset (k, ValueStr r) M) = ns M"
  by (simp_all add: ns_def)









lemma offload_append:
  "offload p (es @ fs) st = offload p fs (offload p es st)"
proof (induction es arbitrary: st)
  case Nil
  then show ?case by simp
next
  case (Cons e es)
  obtain attrs v lg where st: "st = (attrs, v, lg)" by (cases st)
  show ?case unfolding st
    by (cases "vault p v (bytes_of_string (content e))")
       (auto simp: Cons.IH split: sum.splits)
qed

lemma Get_distinct_mem:
  "distinct (map fst m) \<Longrightarrow> (k, x) \<in> set m \<Longrightarrow> Get m k = Some x"
  by (induction m) (auto simp: rev_image_eqI)

lemma Get_of_single: "entries k m = {#(k, y)#} \<Longrightarrow> Get m k = Some y"
proof -
  assume one: "entries k m = {#(k, y)#}"
  show ?thesis
  proof (cases "Get m k")
    case None
    then show ?thesis using one Get_entries(1)[of m k] by simp
  next
    case (Some v)
    from Get_entries(2)[OF this] one show ?thesis using Some by simp
  qed
qed

lemma Get_of_none: "entries k m = {#} \<Longrightarrow> Get m k = None"
  using Get_None_entries[of m k] by (simp add: entries_def)

lemma entries_distinct:
  "distinct (map fst m) \<Longrightarrow> entries k m = {#} \<or> (\<exists>y. entries k m = {#(k, y)#})"
  using Get_None_entries[of m k] Get_Some_entries[of m k]
  by (cases "Get m k") (auto simp: entries_def)

lemma entries_offload_frame:
  "(\<And>e. e \<in> set es \<Longrightarrow> key e \<noteq> k' \<and> key e @ ''.vault_ref'' \<noteq> k') \<Longrightarrow>
   entries k' (fst (offload p es st)) = entries k' (fst st)"
  using entries_offload_other[of es k' p "fst st" "fst (snd st)" "snd (snd st)"]
  by (simp add: entries_def)

lemma entries_PutStr_single:
  "entries k m = {#} \<or> (\<exists>y. entries k m = {#(k, y)#}) \<Longrightarrow>
   entries k (PutStr m k r) = {#(k, ValueStr r)#}"
proof (cases "Get m k")
  case None
  assume "entries k m = {#} \<or> (\<exists>y. entries k m = {#(k, y)#})"
  with None show ?thesis
    using Get_entries(1)[OF None] by (simp add: entries_PutStr_same)
next
  case (Some v)
  assume a: "entries k m = {#} \<or> (\<exists>y. entries k m = {#(k, y)#})"
  from Get_entries(2)[OF Some] a have "entries k m = {#(k, v)#}" by auto
  with Some show ?thesis by (simp add: entries_PutStr_same)
qed

lemma pending_keys:
  "map key (collect p attrs) =
     map fst (filter (\<lambda>(k, v). inKeysSet p k
          \<and> \<not> int (length (Str v)) < SizeThreshold (Vault (config p))) attrs)"
  by (induction attrs) (auto split: if_splits)

lemma pending_distinct:
  "distinct (map fst attrs) \<Longrightarrow> distinct (map key (collect p attrs))"
  unfolding pending_keys by (rule distinct_map_filter)


lemma rewrite_target:
  assumes one: "entries k a = {#(k, ValueStr s)#}"
  shows "entries k (rewrite ''replace_with_ref'' k ref a) = {#(k, ValueStr ref)#}"
    and "entries k (rewrite ''remove'' k ref a) = {#}"
    and "md \<noteq> ''replace_with_ref'' \<Longrightarrow> md \<noteq> ''remove'' \<Longrightarrow> rewrite md k ref a = a"
proof -
  have g: "Get a k = Some (ValueStr s)" using one by (rule Get_of_single)
  show "entries k (rewrite ''replace_with_ref'' k ref a) = {#(k, ValueStr ref)#}"
    using one g by (simp add: rewrite_def entries_other entries_PutStr_same)
  show "entries k (rewrite ''remove'' k ref a) = {#}"
    using one g by (simp add: rewrite_def entries_other entries_Remove_same)
  show "md \<noteq> ''replace_with_ref'' \<Longrightarrow> md \<noteq> ''remove'' \<Longrightarrow> rewrite md k ref a = a"
    by (simp add: rewrite_def)
qed

lemma rewrite_sibling:
  assumes "entries (k @ ''.vault_ref'') a = {#} \<or> (\<exists>y. entries (k @ ''.vault_ref'') a = {#(k @ ''.vault_ref'', y)#})"
    and "md = ''replace_with_ref'' \<or> md = ''remove''"
  shows "entries (k @ ''.vault_ref'') (rewrite md k ref a) = {#(k @ ''.vault_ref'', ValueStr ref)#}"
proof -
  have "entries (k @ ''.vault_ref'') (PutStr a k ref) = entries (k @ ''.vault_ref'') a"
    and "entries (k @ ''.vault_ref'') (Remove a k) = entries (k @ ''.vault_ref'') a"
    by (simp_all add: entries_other)
  then show ?thesis
    using assms by (auto simp: rewrite_def intro!: entries_PutStr_single)
qed


lemma offload_target:
  assumes dk: "distinct (map key (pre @ e # post))"
    and sib: "\<And>e'. e' \<in> set (pre @ post) \<Longrightarrow> key e' @ ''.vault_ref'' \<noteq> key e"
    and one: "entries (key e) attrs = {#(key e, ValueStr s)#}"
    and st1: "offload p pre (attrs, v, lg) = (a1, v1, l1)"
    and out: "out = fst (offload p (pre @ e # post) (attrs, v, lg))"
  shows "(case vault p v1 (bytes_of_string (content e)) of
           (Inl err, v') \<Rightarrow> entries (key e) out = {#(key e, ValueStr s)#}
         | (Inr ref, v') \<Rightarrow>
             entries (key e) out
               = entries (key e) (rewrite (Mode (Vault (config p))) (key e) ref a1))"
    and "entries (key e) a1 = {#(key e, ValueStr s)#}"
proof -
  have pre: "\<And>e'. e' \<in> set pre \<Longrightarrow> key e' \<noteq> key e \<and> key e' @ ''.vault_ref'' \<noteq> key e"
    using dk sib by (auto simp: image_iff)
  have post: "\<And>e'. e' \<in> set post \<Longrightarrow> key e' \<noteq> key e \<and> key e' @ ''.vault_ref'' \<noteq> key e"
    using dk sib by (auto simp: image_iff)
  have "entries (key e) (fst (offload p pre (attrs, v, lg))) = entries (key e) (fst (attrs, v, lg))"
    by (rule entries_offload_frame) (rule pre)
  then show a1: "entries (key e) a1 = {#(key e, ValueStr s)#}"
    using st1 one by simp
  have rest: "\<And>st. entries (key e) (fst (offload p post st)) = entries (key e) (fst st)"
    by (rule entries_offload_frame) (rule post)
  have split: "out = fst (offload p (e # post) (a1, v1, l1))"
    using out st1 by (simp add: offload_append)
  obtain r v' where r: "vault p v1 (bytes_of_string (content e)) = (r, v')"
    by (cases "vault p v1 (bytes_of_string (content e))")
  show "(case vault p v1 (bytes_of_string (content e)) of
           (Inl err, v') \<Rightarrow> entries (key e) out = {#(key e, ValueStr s)#}
         | (Inr ref, v') \<Rightarrow>
             entries (key e) out
               = entries (key e) (rewrite (Mode (Vault (config p))) (key e) ref a1))"
  proof (cases r)
    case (Inl err)
    then show ?thesis using r split rest a1 by simp
  next
    case (Inr ref)
    then show ?thesis using r split rest by simp
  qed
qed

lemma offload_sibling:
  assumes dk: "distinct (map key (pre @ e # post))"
    and nk: "\<And>e'. e' \<in> set (pre @ post) \<Longrightarrow> key e' \<noteq> key e @ ''.vault_ref''"
    and few: "entries (key e @ ''.vault_ref'') attrs = {#}
              \<or> (\<exists>y. entries (key e @ ''.vault_ref'') attrs = {#(key e @ ''.vault_ref'', y)#})"
    and st1: "offload p pre (attrs, v, lg) = (a1, v1, l1)"
    and r: "vault p v1 (bytes_of_string (content e)) = (Inr ref, v')"
    and md: "Mode (Vault (config p)) = ''replace_with_ref'' \<or> Mode (Vault (config p)) = ''remove''"
  shows "entries (key e @ ''.vault_ref'') (fst (offload p (pre @ e # post) (attrs, v, lg)))
           = {#(key e @ ''.vault_ref'', ValueStr ref)#}"
proof -
  let ?kv = "key e @ ''.vault_ref''"
  have pre: "\<And>e'. e' \<in> set pre \<Longrightarrow> key e' \<noteq> ?kv \<and> key e' @ ''.vault_ref'' \<noteq> ?kv"
    using dk nk by (auto simp: image_iff)
  have post: "\<And>e'. e' \<in> set post \<Longrightarrow> key e' \<noteq> ?kv \<and> key e' @ ''.vault_ref'' \<noteq> ?kv"
    using dk nk by (auto simp: image_iff)
  have "entries ?kv (fst (offload p pre (attrs, v, lg))) = entries ?kv (fst (attrs, v, lg))"
    by (rule entries_offload_frame) (rule pre)
  then have a1: "entries ?kv a1 = {#} \<or> (\<exists>y. entries ?kv a1 = {#(?kv, y)#})"
    using st1 few by simp
  have rest: "\<And>st. entries ?kv (fst (offload p post st)) = entries ?kv (fst st)"
    by (rule entries_offload_frame) (rule post)
  have "fst (offload p (pre @ e # post) (attrs, v, lg)) = fst (offload p (e # post) (a1, v1, l1))"
    using st1 by (simp add: offload_append)
  then show ?thesis
    using r rest rewrite_sibling[OF a1 md, of ref] by simp
qed


lemma Attributes_vaultSpan:
  "Attributes (fst (vaultSpan p span st))
     = fst (offload p (collect p (Attributes span)) (Attributes span, fst st, snd st))"
  by (auto simp: vaultSpan_def split: prod.splits)

text \<open>
  Claim C4, as the code has it. Take a span whose attribute keys are distinct and a key \<open>k\<close>
  of the policy that is not \<open>k1.vault_ref\<close> for a key \<open>k1\<close> of the policy. A value of \<open>k\<close>
  strictly shorter than \<open>size_threshold\<close> is not put on the pending list (\<open>Store\<close> is not
  called for it) and \<open>Get\<close> returns it unchanged from the forwarded span. A string value
  of \<open>k\<close> whose length is \<open>size_threshold\<close> or more is put on the pending list, and the
  forwarded span depends on what \<open>Store\<close> returns for its bytes, in the state the vault has
  after the entries before it: on an error the value is unchanged; on success, in mode
  \<open>replace_with_ref\<close> the value of \<open>k\<close> is the reference, in mode \<open>remove\<close> the key \<open>k\<close> is
  gone, in both modes \<open>k.vault_ref\<close> holds the reference when that name is not itself a key
  of the policy, and in any other mode the value is unchanged.
\<close>

theorem threshold_boundary:
  assumes p: "p = newVaultProcessor cfg vlt nxt"
    and k: "k \<in> set (Keys (Vault cfg))"
    and sib: "\<forall>k1 \<in> set (Keys (Vault cfg)). k \<noteq> k1 @ ''.vault_ref''"
    and dist: "distinct (map fst (Attributes span))"
  shows
    "((k, x) \<in> set (Attributes span) \<and> int (length (Str x)) < SizeThreshold (Vault cfg) \<longrightarrow>
        (\<forall>e \<in> set (collect p (Attributes span)). key e \<noteq> k)
        \<and> Get (Attributes (fst (vaultSpan p span st))) k = Some x)
     \<and> ((k, ValueStr s) \<in> set (Attributes span) \<and> SizeThreshold (Vault cfg) \<le> int (length s) \<longrightarrow>
        (\<exists>pre post.
           collect p (Attributes span) = pre @ \<lparr> key = k, content = s \<rparr> # post
           \<and> (case vlt (fst (snd (offload p pre (Attributes span, fst st, snd st))))
                     (bytes_of_string s) of
                (Inl err, v') \<Rightarrow>
                  Get (Attributes (fst (vaultSpan p span st))) k = Some (ValueStr s)
              | (Inr ref, v') \<Rightarrow>
                  (Mode (Vault cfg) = ''replace_with_ref'' \<longrightarrow>
                     Get (Attributes (fst (vaultSpan p span st))) k = Some (ValueStr ref))
                  \<and> (Mode (Vault cfg) = ''remove'' \<longrightarrow>
                     Get (Attributes (fst (vaultSpan p span st))) k = None)
                  \<and> ((Mode (Vault cfg) = ''replace_with_ref'' \<or> Mode (Vault cfg) = ''remove'')
                       \<and> k @ ''.vault_ref'' \<notin> set (Keys (Vault cfg)) \<longrightarrow>
                     Get (Attributes (fst (vaultSpan p span st))) (k @ ''.vault_ref'')
                       = Some (ValueStr ref))
                  \<and> (Mode (Vault cfg) \<noteq> ''replace_with_ref'' \<and> Mode (Vault cfg) \<noteq> ''remove'' \<longrightarrow>
                     Get (Attributes (fst (vaultSpan p span st))) k = Some (ValueStr s)))))"
proof (intro conjI impI)
  let ?attrs = "Attributes span"
  let ?es = "collect p ?attrs"
  let ?out = "Attributes (fst (vaultSpan p span st))"
  have keys: "\<And>e. e \<in> set ?es \<Longrightarrow> key e \<in> set (Keys (Vault cfg))"
    using p by (auto simp: collect_mem inKeysSet_new)
  have nosib: "\<And>e. e \<in> set ?es \<Longrightarrow> key e @ ''.vault_ref'' \<noteq> k"
    using keys sib by auto
  {
    assume a: "(k, x) \<in> set ?attrs \<and> int (length (Str x)) < SizeThreshold (Vault cfg)"
    have notk: "\<And>e. e \<in> set ?es \<Longrightarrow> key e \<noteq> k"
    proof
      fix e assume e: "e \<in> set ?es" and "key e = k"
      then obtain v where v: "(k, v) \<in> set ?attrs" "content e = Str v"
        "\<not> int (length (content e)) < SizeThreshold (Vault (config p))"
        by (auto simp: collect_mem)
      from eq_key_imp_eq_value[OF dist v(1)] a have "v = x" by simp
      with v a p show False by simp
    qed
    then show "\<forall>e \<in> set ?es. key e \<noteq> k" by simp
    have "entries k (fst (offload p ?es (?attrs, fst st, snd st))) = entries k (fst (?attrs, fst st, snd st))"
      by (rule entries_offload_frame) (simp add: notk nosib)
    then have "entries k ?out = entries k ?attrs"
      by (simp add: Attributes_vaultSpan)
    then have "Get ?out k = Get ?attrs k"
      using Get_eq_of_entries[OF dist, where k = k and m' = ?out] by (simp add: entries_def)
    then show "Get ?out k = Some x"
      using Get_distinct_mem[OF dist] a by simp
  }
  {
    assume a: "(k, ValueStr s) \<in> set ?attrs \<and> SizeThreshold (Vault cfg) \<le> int (length s)"
    let ?e = "\<lparr> key = k, content = s \<rparr>"
    have "?e \<in> set ?es"
      using a p k by (auto simp: collect_mem inKeysSet_new intro!: exI[of _ "ValueStr s"])
    then obtain pre post where es: "?es = pre @ ?e # post"
      by (auto dest: split_list)
    have dk: "distinct (map key (pre @ ?e # post))"
      using pending_distinct[OF dist, of p] es by simp
    have mem: "\<And>e'. e' \<in> set (pre @ post) \<Longrightarrow> e' \<in> set ?es"
      using es by auto
    have sib': "\<And>e'. e' \<in> set (pre @ post) \<Longrightarrow> key e' @ ''.vault_ref'' \<noteq> key ?e"
      using nosib mem by simp
    have one: "entries (key ?e) ?attrs = {#(key ?e, ValueStr s)#}"
      using Get_Some_entries[OF dist, of k "ValueStr s"] Get_distinct_mem[OF dist, of k "ValueStr s"] a
      by (simp add: entries_def)
    obtain a1 v1 l1 where st1: "offload p pre (?attrs, fst st, snd st) = (a1, v1, l1)"
      by (cases "offload p pre (?attrs, fst st, snd st)")
    have out: "?out = fst (offload p (pre @ ?e # post) (?attrs, fst st, snd st))"
      using es by (simp add: Attributes_vaultSpan)
    note tgt = offload_target[OF dk sib' one st1 out]
    obtain r v' where r: "vlt v1 (bytes_of_string s) = (r, v')"
      by (cases "vlt v1 (bytes_of_string s)")
    have "case vlt v1 (bytes_of_string s) of
            (Inl err, v') \<Rightarrow> Get ?out k = Some (ValueStr s)
          | (Inr ref, v') \<Rightarrow>
              (Mode (Vault cfg) = ''replace_with_ref'' \<longrightarrow> Get ?out k = Some (ValueStr ref))
              \<and> (Mode (Vault cfg) = ''remove'' \<longrightarrow> Get ?out k = None)
              \<and> ((Mode (Vault cfg) = ''replace_with_ref'' \<or> Mode (Vault cfg) = ''remove'')
                   \<and> k @ ''.vault_ref'' \<notin> set (Keys (Vault cfg)) \<longrightarrow>
                 Get ?out (k @ ''.vault_ref'') = Some (ValueStr ref))
              \<and> (Mode (Vault cfg) \<noteq> ''replace_with_ref'' \<and> Mode (Vault cfg) \<noteq> ''remove'' \<longrightarrow>
                 Get ?out k = Some (ValueStr s))"
    proof (cases r)
      case (Inl err)
      with tgt(1) r p have "entries k ?out = {#(k, ValueStr s)#}" by simp
      then show ?thesis using r Inl by (simp add: Get_of_single)
    next
      case (Inr ref)
      with tgt(1) r p have eq: "entries k ?out = entries k (rewrite (Mode (Vault cfg)) k ref a1)"
        by simp
      have a1: "entries k a1 = {#(k, ValueStr s)#}" using tgt(2) by simp
      have c1: "Mode (Vault cfg) = ''replace_with_ref'' \<longrightarrow> Get ?out k = Some (ValueStr ref)"
        using eq rewrite_target(1)[OF a1, of ref] by (auto simp: Get_of_single)
      have c2: "Mode (Vault cfg) = ''remove'' \<longrightarrow> Get ?out k = None"
        using eq rewrite_target(2)[OF a1, of ref] by (auto simp: Get_of_none)
      have c4: "Mode (Vault cfg) \<noteq> ''replace_with_ref'' \<and> Mode (Vault cfg) \<noteq> ''remove'' \<longrightarrow>
                 Get ?out k = Some (ValueStr s)"
        using eq a1 rewrite_target(3)[OF a1, where md = "Mode (Vault cfg)" and ref = ref] by (auto simp: Get_of_single)
      have c3: "(Mode (Vault cfg) = ''replace_with_ref'' \<or> Mode (Vault cfg) = ''remove'')
                   \<and> k @ ''.vault_ref'' \<notin> set (Keys (Vault cfg)) \<longrightarrow>
                 Get ?out (k @ ''.vault_ref'') = Some (ValueStr ref)"
      proof
        assume h: "(Mode (Vault cfg) = ''replace_with_ref'' \<or> Mode (Vault cfg) = ''remove'')
                   \<and> k @ ''.vault_ref'' \<notin> set (Keys (Vault cfg))"
        have nk: "\<And>e'. e' \<in> set (pre @ post) \<Longrightarrow> key e' \<noteq> key ?e @ ''.vault_ref''"
        proof
          fix e' assume "e' \<in> set (pre @ post)" and "key e' = key ?e @ ''.vault_ref''"
          with keys[OF mem, of e'] h show False by simp
        qed
        have few: "entries (key ?e @ ''.vault_ref'') ?attrs = {#}
              \<or> (\<exists>y. entries (key ?e @ ''.vault_ref'') ?attrs = {#(key ?e @ ''.vault_ref'', y)#})"
          by (rule entries_distinct[OF dist])
        have r': "vault p v1 (bytes_of_string (content ?e)) = (Inr ref, v')"
          using r Inr p by simp
        have md: "Mode (Vault (config p)) = ''replace_with_ref'' \<or> Mode (Vault (config p)) = ''remove''"
          using h p by simp
        from offload_sibling[OF dk nk few st1 r' md]
        show "Get ?out (k @ ''.vault_ref'') = Some (ValueStr ref)"
          using out by (simp add: Get_of_single)
      qed
      show ?thesis using r Inr c1 c2 c3 c4 by simp
    qed
    then show "\<exists>pre post.
           collect p (Attributes span) = pre @ \<lparr> key = k, content = s \<rparr> # post
           \<and> (case vlt (fst (snd (offload p pre (Attributes span, fst st, snd st))))
                     (bytes_of_string s) of
                (Inl err, v') \<Rightarrow>
                  Get (Attributes (fst (vaultSpan p span st))) k = Some (ValueStr s)
              | (Inr ref, v') \<Rightarrow>
                  (Mode (Vault cfg) = ''replace_with_ref'' \<longrightarrow>
                     Get (Attributes (fst (vaultSpan p span st))) k = Some (ValueStr ref))
                  \<and> (Mode (Vault cfg) = ''remove'' \<longrightarrow>
                     Get (Attributes (fst (vaultSpan p span st))) k = None)
                  \<and> ((Mode (Vault cfg) = ''replace_with_ref'' \<or> Mode (Vault cfg) = ''remove'')
                       \<and> k @ ''.vault_ref'' \<notin> set (Keys (Vault cfg)) \<longrightarrow>
                     Get (Attributes (fst (vaultSpan p span st))) (k @ ''.vault_ref'')
                       = Some (ValueStr ref))
                  \<and> (Mode (Vault cfg) \<noteq> ''replace_with_ref'' \<and> Mode (Vault cfg) \<noteq> ''remove'' \<longrightarrow>
                     Get (Attributes (fst (vaultSpan p span st))) k = Some (ValueStr s)))"
      using es st1 by (intro exI[of _ pre] exI[of _ post]) simp
  }
qed


theorem threshold_boundary_witness:
  "''gen_ai.input.messages'' \<in> set (Keys (Vault (policy [''gen_ai.input.messages'', ''gen_ai.output.messages''] 50 ''replace_with_ref'')))
   \<and> ''gen_ai.output.messages'' \<in> set (Keys (Vault (policy [''gen_ai.input.messages'', ''gen_ai.output.messages''] 50 ''replace_with_ref'')))
   \<and> ''gen_ai.input.messages'' \<noteq> ''gen_ai.input.messages'' @ ''.vault_ref'' \<and> ''gen_ai.input.messages'' \<noteq> ''gen_ai.output.messages'' @ ''.vault_ref''
   \<and> ''gen_ai.output.messages'' \<noteq> ''gen_ai.input.messages'' @ ''.vault_ref'' \<and> ''gen_ai.output.messages'' \<noteq> ''gen_ai.output.messages'' @ ''.vault_ref''
   \<and> ''gen_ai.output.messages'' @ ''.vault_ref'' \<notin> set (Keys (Vault (policy [''gen_ai.input.messages'', ''gen_ai.output.messages''] 50 ''replace_with_ref'')))
   \<and> distinct (map fst (Attributes (makeSpan [(''gen_ai.input.messages'', ValueStr (replicate 49 (CHR ''a''))), (''gen_ai.output.messages'', ValueStr (replicate 50 (CHR ''b'')))] [])))
   \<and> (''gen_ai.input.messages'', ValueStr (replicate 49 (CHR ''a''))) \<in> set (Attributes (makeSpan [(''gen_ai.input.messages'', ValueStr (replicate 49 (CHR ''a''))), (''gen_ai.output.messages'', ValueStr (replicate 50 (CHR ''b'')))] []))
   \<and> int (length (Str (ValueStr (replicate 49 (CHR ''a''))))) < SizeThreshold (Vault (policy [''gen_ai.input.messages'', ''gen_ai.output.messages''] 50 ''replace_with_ref''))
   \<and> (''gen_ai.output.messages'', ValueStr (replicate 50 (CHR ''b''))) \<in> set (Attributes (makeSpan [(''gen_ai.input.messages'', ValueStr (replicate 49 (CHR ''a''))), (''gen_ai.output.messages'', ValueStr (replicate 50 (CHR ''b'')))] []))
   \<and> SizeThreshold (Vault (policy [''gen_ai.input.messages'', ''gen_ai.output.messages''] 50 ''replace_with_ref'')) \<le> int (length (replicate 50 (CHR ''b'')))
   \<and> Get (Attributes (fst (vaultSpan (newVaultProcessor (policy [''gen_ai.input.messages'', ''gen_ai.output.messages''] 50 ''replace_with_ref'') recording_vault sink) (makeSpan [(''gen_ai.input.messages'', ValueStr (replicate 49 (CHR ''a''))), (''gen_ai.output.messages'', ValueStr (replicate 50 (CHR ''b'')))] []) ([], [])))) ''gen_ai.input.messages'' = Some (ValueStr (replicate 49 (CHR ''a'')))
   \<and> Get (Attributes (fst (vaultSpan (newVaultProcessor (policy [''gen_ai.input.messages'', ''gen_ai.output.messages''] 50 ''replace_with_ref'') recording_vault sink) (makeSpan [(''gen_ai.input.messages'', ValueStr (replicate 49 (CHR ''a''))), (''gen_ai.output.messages'', ValueStr (replicate 50 (CHR ''b'')))] []) ([], [])))) ''gen_ai.output.messages'' = Some (ValueStr ''vault://ref'')
   \<and> Get (Attributes (fst (vaultSpan (newVaultProcessor (policy [''gen_ai.input.messages'', ''gen_ai.output.messages''] 50 ''replace_with_ref'') recording_vault sink) (makeSpan [(''gen_ai.input.messages'', ValueStr (replicate 49 (CHR ''a''))), (''gen_ai.output.messages'', ValueStr (replicate 50 (CHR ''b'')))] []) ([], [])))) (''gen_ai.output.messages'' @ ''.vault_ref'') = Some (ValueStr ''vault://ref'')"
proof -
  let ?cfg = "policy [''gen_ai.input.messages'', ''gen_ai.output.messages''] 50 ''replace_with_ref''"
  let ?span = "makeSpan [(''gen_ai.input.messages'', ValueStr (replicate 49 (CHR ''a''))), (''gen_ai.output.messages'', ValueStr (replicate 50 (CHR ''b'')))] []"
  have k1: "''gen_ai.input.messages'' \<in> set (Keys (Vault ?cfg))" by (simp add: policy_def)
  have k2: "''gen_ai.output.messages'' \<in> set (Keys (Vault ?cfg))" by (simp add: policy_def)
  have sib1: "\<forall>k1 \<in> set (Keys (Vault ?cfg)). ''gen_ai.input.messages'' \<noteq> k1 @ ''.vault_ref''"
    by (simp add: policy_def)
  have sib2: "\<forall>k1 \<in> set (Keys (Vault ?cfg)). ''gen_ai.output.messages'' \<noteq> k1 @ ''.vault_ref''"
    by (simp add: policy_def)
  have nk: "''gen_ai.output.messages'' @ ''.vault_ref'' \<notin> set (Keys (Vault ?cfg))" by (simp add: policy_def)
  have dist: "distinct (map fst (Attributes ?span))" by (simp add: makeSpan_def)
  have m1: "(''gen_ai.input.messages'', ValueStr (replicate 49 (CHR ''a''))) \<in> set (Attributes ?span)" by (simp add: makeSpan_def)
  have m2: "(''gen_ai.output.messages'', ValueStr (replicate 50 (CHR ''b''))) \<in> set (Attributes ?span)" by (simp add: makeSpan_def)
  have t1: "int (length (Str (ValueStr (replicate 49 (CHR ''a''))))) < SizeThreshold (Vault ?cfg)" by (simp add: policy_def)
  have t2: "SizeThreshold (Vault ?cfg) \<le> int (length (replicate 50 (CHR ''b'')))"
    by (simp add: policy_def)
  have md: "Mode (Vault ?cfg) = ''replace_with_ref''" by (simp add: policy_def)
  have g1: "Get (Attributes (fst (vaultSpan (newVaultProcessor ?cfg recording_vault sink) ?span ([], []))))
              ''gen_ai.input.messages'' = Some (ValueStr (replicate 49 (CHR ''a'')))"
    using threshold_boundary[OF refl k1 sib1 dist, of "ValueStr (replicate 49 (CHR ''a''))" recording_vault sink "([], [])"]
      m1 t1 by blast
  have "\<exists>pre post.
          (case recording_vault
                  (fst (snd (offload (newVaultProcessor ?cfg recording_vault sink) pre
                     (Attributes ?span, fst ([], []), snd ([], [])))))
                  (bytes_of_string (replicate 50 (CHR ''b''))) of
             (Inl err, v') \<Rightarrow> False
           | (Inr ref, v') \<Rightarrow>
               Get (Attributes (fst (vaultSpan (newVaultProcessor ?cfg recording_vault sink) ?span ([], []))))
                 ''gen_ai.output.messages'' = Some (ValueStr ref)
               \<and> Get (Attributes (fst (vaultSpan (newVaultProcessor ?cfg recording_vault sink) ?span ([], []))))
                 (''gen_ai.output.messages'' @ ''.vault_ref'') = Some (ValueStr ref))"
    using threshold_boundary[OF refl k2 sib2 dist, of _ recording_vault sink "([], [])"
        "replicate 50 (CHR ''b'')"]
      m2 t2 md nk by (auto simp: recording_vault_def)
  then have g2: "Get (Attributes (fst (vaultSpan (newVaultProcessor ?cfg recording_vault sink) ?span ([], []))))
                 ''gen_ai.output.messages'' = Some (ValueStr ''vault://ref'')
               \<and> Get (Attributes (fst (vaultSpan (newVaultProcessor ?cfg recording_vault sink) ?span ([], []))))
                 (''gen_ai.output.messages'' @ ''.vault_ref'') = Some (ValueStr ''vault://ref'')"
    by (simp add: recording_vault_def)
  have s1: "''gen_ai.input.messages'' \<noteq> ''gen_ai.input.messages'' @ ''.vault_ref'' \<and> ''gen_ai.input.messages'' \<noteq> ''gen_ai.output.messages'' @ ''.vault_ref''
   \<and> ''gen_ai.output.messages'' \<noteq> ''gen_ai.input.messages'' @ ''.vault_ref'' \<and> ''gen_ai.output.messages'' \<noteq> ''gen_ai.output.messages'' @ ''.vault_ref''"
    by simp
  from k1 k2 s1 nk dist m1 m2 t1 t2 g1 g2 show ?thesis by blast
qed

text \<open>
  The claim as the specification states it fails in two ways. When \<open>k.vault_ref\<close> is itself
  a key of the policy, a 3-byte value of it, below the threshold of 5, is overwritten by the
  reference of \<open>k\<close>. When a span holds the key twice, first with a 3-byte value and then
  with a 5-byte value, \<open>PutStr\<close> writes the reference over the first entry: the short value
  is lost and the 5-byte value is still in the span.
\<close>

theorem threshold_boundary_counterexample:
  "''gen_ai.prompt.vault_ref''
      \<in> set (Keys (Vault (policy [''gen_ai.prompt'', ''gen_ai.prompt.vault_ref''] 5 ''replace_with_ref'')))
   \<and> int (length ''abc'')
      < SizeThreshold (Vault (policy [''gen_ai.prompt'', ''gen_ai.prompt.vault_ref''] 5 ''replace_with_ref''))
   \<and> Get (Attributes (makeSpan [(''gen_ai.prompt'', ValueStr ''12345''),
                                (''gen_ai.prompt.vault_ref'', ValueStr ''abc'')] []))
        ''gen_ai.prompt.vault_ref'' = Some (ValueStr ''abc'')
   \<and> Get (Attributes (fst (vaultSpan
        (newVaultProcessor (policy [''gen_ai.prompt'', ''gen_ai.prompt.vault_ref''] 5 ''replace_with_ref'')
           recording_vault sink)
        (makeSpan [(''gen_ai.prompt'', ValueStr ''12345''),
                   (''gen_ai.prompt.vault_ref'', ValueStr ''abc'')] [])
        ([], []))))
        ''gen_ai.prompt.vault_ref'' = Some (ValueStr ''vault://ref'')
   \<and> ''gen_ai.prompt'' \<in> set (Keys (Vault (policy [''gen_ai.prompt''] 5 ''replace_with_ref'')))
   \<and> Attributes (fst (vaultSpan
        (newVaultProcessor (policy [''gen_ai.prompt''] 5 ''replace_with_ref'') recording_vault sink)
        (makeSpan [(''gen_ai.prompt'', ValueStr ''abc''), (''gen_ai.prompt'', ValueStr ''12345'')] [])
        ([], [])))
      = [(''gen_ai.prompt'', ValueStr ''vault://ref''), (''gen_ai.prompt'', ValueStr ''12345''),
         (''gen_ai.prompt.vault_ref'', ValueStr ''vault://ref'')]"
  by (simp add: vaultSpan_def inKeysSet_new policy_def makeSpan_def recording_vault_def rewrite_def)
section \<open>Properties of the two stores\<close>

lemma map_of_put_entry: "map_of (put_entry k v es) = (map_of es)(k \<mapsto> v)"
  by (induction es) (auto simp: fun_eq_iff)

lemma lookup_Dir_Cons:
  "lookup (DirNode es) (a # q) = Some x \<longleftrightarrow> (\<exists>n. map_of es a = Some n \<and> lookup n q = Some x)"
  by (auto split: option.splits)

lemma lookup_File: "lookup (FileNode d) q = Some x \<longleftrightarrow> q = [] \<and> x = FileNode d"
  by (cases q) auto

lemma MkdirAll_keeps_files:
  "os_MkdirAll t p = Some t' \<Longrightarrow> lookup t q = Some (FileNode c)
   \<Longrightarrow> lookup t' q = Some (FileNode c)"
proof (induction t p arbitrary: t' q rule: os_MkdirAll.induct)
  case (1 d p)
  then show ?case by simp
next
  case (2 es)
  then show ?case by simp
next
  case (3 es a cs)
  let ?sub = "case map_of es a of None \<Rightarrow> DirNode [] | Some n \<Rightarrow> n"
  from "3.prems"(1) obtain n' where n': "os_MkdirAll ?sub cs = Some n'"
    and t': "t' = DirNode (put_entry a n' es)"
    by (auto split: option.splits)
  from "3.prems"(2) obtain b q' where q: "q = b # q'" by (cases q) auto
  with "3.prems"(2) obtain n0 where n0: "map_of es b = Some n0" "lookup n0 q' = Some (FileNode c)"
    by (auto split: option.splits)
  show ?case
  proof (cases "b = a")
    case True
    with n0 have "lookup ?sub q' = Some (FileNode c)" by simp
    from "3.IH"[OF n' this] show ?thesis using True q t' by (simp add: map_of_put_entry)
  next
    case False
    with n0 q t' show ?thesis by (simp add: map_of_put_entry)
  qed
qed

lemma WriteFile_keeps_files:
  "os_WriteFile t p d = Some t' \<Longrightarrow> q \<noteq> p \<Longrightarrow> lookup t q = Some (FileNode c)
   \<Longrightarrow> lookup t' q = Some (FileNode c)"
proof (induction t p d arbitrary: t' q rule: os_WriteFile.induct)
  case (1 n d)
  then show ?case by simp
next
  case (2 x c cs d)
  then show ?case by simp
next
  case (3 es a d)
  from "3.prems"(3) obtain b q' where q: "q = b # q'" by (cases q) auto
  with "3.prems"(3) obtain n0 where n0: "map_of es b = Some n0" "lookup n0 q' = Some (FileNode c)"
    by (auto split: option.splits)
  from "3.prems"(1) have t': "t' = DirNode (put_entry a (FileNode d) es)"
    and nodir: "\<And>sub. map_of es a \<noteq> Some (DirNode sub)"
    by (auto split: option.splits node.splits)
  show ?case
  proof (cases "b = a")
    case True
    with n0 nodir obtain x where "n0 = FileNode x" by (cases n0) auto
    with n0 have "q' = []" by (simp add: lookup_File)
    with True q "3.prems"(2) show ?thesis by simp
  next
    case False
    with n0 q t' show ?thesis by (simp add: map_of_put_entry)
  qed
next
  case (4 es a a' cs d)
  from "4.prems"(3) obtain b q' where q: "q = b # q'" by (cases q) auto
  with "4.prems"(3) obtain n0 where n0: "map_of es b = Some n0" "lookup n0 q' = Some (FileNode c)"
    by (auto split: option.splits)
  from "4.prems"(1) obtain n n' where n: "map_of es a = Some n"
    and n': "os_WriteFile n (a' # cs) d = Some n'" and t': "t' = DirNode (put_entry a n' es)"
    by (auto split: option.splits)
  show ?case
  proof (cases "b = a")
    case True
    with n0 n have "lookup n q' = Some (FileNode c)" by simp
    moreover have "q' \<noteq> a' # cs" using True q "4.prems"(2) by simp
    ultimately have "lookup n' q' = Some (FileNode c)"
      using "4.IH"[OF n n'] by simp
    with True q t' show ?thesis by (simp add: map_of_put_entry)
  next
    case False
    with n0 q t' show ?thesis by (simp add: map_of_put_entry)
  qed
qed

lemma WriteFile_lookup:
  "os_WriteFile t p d = Some t' \<Longrightarrow> lookup t' p = Some (FileNode d)"
proof (induction t p d arbitrary: t' rule: os_WriteFile.induct)
  case (3 es a d)
  then show ?case by (auto simp: map_of_put_entry split: option.splits node.splits)
next
  case (4 es a a' cs d)
  then show ?case by (auto simp: map_of_put_entry split: option.splits)
qed simp_all

lemma WriteFile_read:
  "os_WriteFile t p d = Some t' \<Longrightarrow> os_ReadFile t' p = Some d"
  by (simp add: os_ReadFile_def WriteFile_lookup)


lemma hexdigit_inj: "i < 16 \<Longrightarrow> j < 16 \<Longrightarrow> hexdigit i = hexdigit j \<Longrightarrow> i = j"
proof -
  have d: "distinct ''0123456789abcdef''" by simp
  assume "i < 16" "j < 16" "hexdigit i = hexdigit j"
  then show ?thesis
    unfolding hexdigit_def using nth_eq_iff_index_eq[OF d, of i j] by simp
qed

lemma hex_byte_inj: "hex_byte a = hex_byte b \<Longrightarrow> a = b"
proof -
  assume eq: "hex_byte a = hex_byte b"
  have ua: "unat a < 256" using unsigned_less[of a] by simp
  have ub: "unat b < 256" using unsigned_less[of b] by simp
  have "unat a div 16 = unat b div 16"
    using eq ua ub by (intro hexdigit_inj) (auto simp: hex_byte_def)
  moreover have "unat a mod 16 = unat b mod 16"
    using eq by (intro hexdigit_inj) (auto simp: hex_byte_def)
  ultimately have "unat a = unat b"
    by (metis div_mult_mod_eq)
  then show ?thesis by (simp add: word_unat_eq_iff)
qed

lemma EncodeToString_Cons:
  "EncodeToString (b # bs) = hexdigit (unat b div 16) # hexdigit (unat b mod 16) # EncodeToString bs"
  by (simp add: EncodeToString_def hex_byte_def)

lemma EncodeToString_Nil [simp]: "EncodeToString [] = []"
  by (simp add: EncodeToString_def)

lemma EncodeToString_inj: "EncodeToString xs = EncodeToString ys \<Longrightarrow> xs = ys"
proof (induction xs arbitrary: ys)
  case Nil
  then show ?case by (cases ys) (simp_all add: EncodeToString_Cons)
next
  case (Cons x xs)
  then obtain y ys' where ys: "ys = y # ys'"
    by (cases ys) (simp_all add: EncodeToString_Cons)
  with Cons.prems have "hex_byte x = hex_byte y" "EncodeToString xs = EncodeToString ys'"
    by (simp_all add: EncodeToString_Cons hex_byte_def)
  with Cons.IH[of ys'] ys show ?case by (simp add: hex_byte_inj)
qed

lemma EncodeToString_empty: "EncodeToString bs = [] \<longleftrightarrow> bs = []"
  by (cases bs) (simp_all add: EncodeToString_Cons)

lemma Split_not_Nil: "Split s \<noteq> []"
  by (induction s) (auto split: list.splits)

lemma Split_append: "Split (x @ CHR ''/'' # y) = Split x @ Split y"
  by (induction x) (auto split: list.splits simp: Split_not_Nil)

lemma Join_trace_span_key:
  "filepath_Join base [t, s, k] = filepath_Join base [t @ ''/'' @ s @ ''/'' @ k]"
  by (simp add: filepath_Join_def Split_append)

lemma Backend_Store_ref:
  "Backend_Store h base fs t s k p = (Inr ref, fs') \<Longrightarrow>
   URI ref = ''promptvault://fs/'' @ t @ ''/'' @ s @ ''/'' @ k
   \<and> Checksum ref = EncodeToString (h p)
   \<and> os_ReadFile fs' (filepath_Join base [t, s, k]) = Some p"
  by (auto simp: Backend_Store_def Let_def WriteFile_read split: option.splits)

lemma Backend_locator:
  "URI ref = ''promptvault://fs/'' @ t @ ''/'' @ s @ ''/'' @ k \<Longrightarrow>
   filepath_Join base [drop (length ''promptvault://fs/'') (URI ref)] = filepath_Join base [t, s, k]"
  by (simp add: Join_trace_span_key)

lemma Backend_roundtrip:
  "Backend_Store h base fs t s k p = (Inr ref, fs') \<Longrightarrow> Sscanf_ok (URI ref) \<Longrightarrow>
   Backend_Retrieve h base fs' ref = Inr p"
  using Backend_Store_ref[of h base fs t s k p ref fs'] Backend_locator[of ref t s k base]
  by (simp add: Backend_Retrieve_def Let_def)

lemma replicate_numeral: "replicate (numeral n) x = x # replicate (pred_numeral n) x"
  by (simp add: numeral_eq_Suc)

lemmas fs_eval = replicate_numeral
  Backend_Store_def Backend_Retrieve_def Let_def filepath_Join_def Clean_def clean_step_def
  filepath_Dir_def toy_sum256_def bytes_of_string_def EncodeToString_def hex_byte_def
  hexdigit_def os_ReadFile_def os_Stat_def Sscanf_ok_def SkipSpace.simps strip_space_def
  hello_ref_def hello_fs_def

lemma Backend_Retrieve_Inr_iff:
  "Backend_Retrieve h base fs ref = Inr x \<longleftrightarrow>
     Sscanf_ok (URI ref)
     \<and> os_ReadFile fs (filepath_Join base [drop (length ''promptvault://fs/'') (URI ref)]) = Some x
     \<and> EncodeToString (h x) = Checksum ref"
  by (auto simp: Backend_Retrieve_def Let_def split: option.splits)

lemma Backend_Retrieve_mismatch:
  "Sscanf_ok (URI ref) \<Longrightarrow>
   os_ReadFile fs (filepath_Join base [drop (length ''promptvault://fs/'') (URI ref)]) = Some d \<Longrightarrow>
   EncodeToString (h d) \<noteq> Checksum ref \<Longrightarrow>
   Backend_Retrieve h base fs ref = Inl (ErrChecksumMismatch (Checksum ref) (EncodeToString (h d)))"
  by (simp add: Backend_Retrieve_def Let_def)

text \<open>
  Claim C6, as the code has it. \<open>FilesystemBackend.Retrieve\<close> compares the digest of the
  bytes it read with \<open>ref.Checksum\<close> in every case; nothing tests for an empty checksum.
  The digest of \<open>sha256.Sum256\<close> has 32 bytes, so its hexadecimal text is never empty: for a
  reference with an empty checksum \<open>Retrieve\<close> never returns bytes, and when the locator
  scans and the object can be read it returns the checksum mismatch error (expected the
  empty string, got the digest of the bytes read).
\<close>

theorem empty_checksum_is_a_mismatch:
  "Checksum ref = [] \<Longrightarrow> (\<forall>d. length (h d) = 32) \<Longrightarrow>
   (\<forall>x. Backend_Retrieve h base fs ref \<noteq> Inr x)
   \<and> (Sscanf_ok (URI ref)
        \<and> os_ReadFile fs (filepath_Join base [drop (length ''promptvault://fs/'') (URI ref)]) = Some d
      \<longrightarrow> Backend_Retrieve h base fs ref = Inl (ErrChecksumMismatch [] (EncodeToString (h d))))"
proof -
  assume c: "Checksum ref = []" and len: "\<forall>d. length (h d) = 32"
  have ne: "\<And>x. EncodeToString (h x) \<noteq> []"
  proof
    fix x assume "EncodeToString (h x) = []"
    then have "h x = []" by (simp add: EncodeToString_empty)
    with len[rule_format, of x] show False by simp
  qed
  have "\<And>x. Backend_Retrieve h base fs ref \<noteq> Inr x"
    using ne c by (simp add: Backend_Retrieve_Inr_iff)
  moreover have "Sscanf_ok (URI ref)
        \<and> os_ReadFile fs (filepath_Join base [drop (length ''promptvault://fs/'') (URI ref)]) = Some d
      \<longrightarrow> Backend_Retrieve h base fs ref = Inl (ErrChecksumMismatch [] (EncodeToString (h d)))"
    using Backend_Retrieve_mismatch[of ref fs base d h] ne[of d] c by simp
  ultimately show ?thesis by blast
qed

lemma hello_store:
  "Backend_Store toy_sum256 [''data'', ''vault''] (DirNode []) ''0102030405060708090a0b0c0d0e0f10'' ''0102030405060708'' ''gen_ai.prompt'' (bytes_of_string ''hello'')
     = (Inr hello_ref, hello_fs)"
  by (simp add: fs_eval)

lemma hello_scan: "Sscanf_ok (URI hello_ref)"
  by (simp add: fs_eval)

lemma hello_read:
  "os_ReadFile hello_fs (filepath_Join [''data'', ''vault''] [drop (length ''promptvault://fs/'') (URI hello_ref)])
     = Some (bytes_of_string ''hello'')"
  by (simp add: fs_eval)

lemma toy_len: "length (toy_sum256 d) = 32"
  by (simp add: toy_sum256_def)

theorem empty_checksum_is_a_mismatch_witness:
  "Checksum (hello_ref\<lparr>Checksum := []\<rparr>) = []
   \<and> (\<forall>d. length (toy_sum256 d) = 32)
   \<and> Sscanf_ok (URI (hello_ref\<lparr>Checksum := []\<rparr>))
   \<and> os_ReadFile hello_fs
        (filepath_Join [''data'', ''vault'']
           [drop (length ''promptvault://fs/'') (URI (hello_ref\<lparr>Checksum := []\<rparr>))])
       = Some (bytes_of_string ''hello'')
   \<and> Backend_Retrieve toy_sum256 [''data'', ''vault''] hello_fs (hello_ref\<lparr>Checksum := []\<rparr>)
       = Inl (ErrChecksumMismatch []
               (EncodeToString (toy_sum256 (bytes_of_string ''hello''))))
   \<and> (\<forall>x. Backend_Retrieve toy_sum256 [''data'', ''vault''] hello_fs (hello_ref\<lparr>Checksum := []\<rparr>) \<noteq> Inr x)"
proof -
  have c: "Checksum (hello_ref\<lparr>Checksum := []\<rparr>) = []" by simp
  have l: "\<forall>d. length (toy_sum256 d) = 32" by (simp add: toy_len)
  have s: "Sscanf_ok (URI (hello_ref\<lparr>Checksum := []\<rparr>))" using hello_scan by simp
  have r: "os_ReadFile hello_fs
        (filepath_Join [''data'', ''vault'']
           [drop (length ''promptvault://fs/'') (URI (hello_ref\<lparr>Checksum := []\<rparr>))])
       = Some (bytes_of_string ''hello'')"
    using hello_read by simp
  from empty_checksum_is_a_mismatch[OF c l, of "[''data'', ''vault'']" hello_fs "bytes_of_string ''hello''"]
    c l s r show ?thesis by blast
qed

text \<open>
  The claim as the specification states it fails: the object stored for the span of the
  golden test is on disk, the reference has the right locator and an empty checksum, and
  \<open>Retrieve\<close> returns the checksum mismatch error instead of the bytes.
\<close>

theorem empty_checksum_counterexample:
  "Checksum \<lparr> URI = ''promptvault://fs/0102030405060708090a0b0c0d0e0f10/0102030405060708/gen_ai.prompt'',
               Checksum = [], Encrypted = False, SizeBytes = - 1 \<rparr> = []
   \<and> os_ReadFile hello_fs
        [''data'', ''vault'', ''0102030405060708090a0b0c0d0e0f10'', ''0102030405060708'', ''gen_ai.prompt'']
       = Some (bytes_of_string ''hello'')
   \<and> Backend_Retrieve toy_sum256 [''data'', ''vault''] hello_fs
        \<lparr> URI = ''promptvault://fs/0102030405060708090a0b0c0d0e0f10/0102030405060708/gen_ai.prompt'',
          Checksum = [], Encrypted = False, SizeBytes = - 1 \<rparr>
       = Inl (ErrChecksumMismatch []
               ''68656c6c6f000000000000000000000000000000000000000000000000000005'')"
  by (simp add: fs_eval)

lemma Format_test: "Format test_time = ''2024/03/09''"
  by (simp add: Format_def test_time_def dec.simps zpad_def digit_def)

text \<open>
  Claim C2. \<open>Store\<close> returned the reference \<open>ref\<close> for the payload \<open>p\<close>; its checksum is
  the digest of \<open>p\<close> in hexadecimal, and the locator resolves to the path \<open>Store\<close> wrote. In
  a later file system the bytes at that path are \<open>d'\<close>, different from \<open>p\<close>, and the digest has
  no collision between \<open>p\<close> and \<open>d'\<close>. Then \<open>Retrieve\<close> does not return bytes, and when the
  locator scans it returns the checksum mismatch error with the two digests.
\<close>

theorem checksum_enforcement:
  assumes st: "Backend_Store h base fs t s k p = (Inr ref, fs1)"
    and rd: "os_ReadFile fs2 (filepath_Join base [drop (length ''promptvault://fs/'') (URI ref)]) = Some d'"
    and ne: "d' \<noteq> p"
    and inj: "inj_on h {p, d'}"
  shows "Checksum ref = EncodeToString (h p)
     \<and> filepath_Join base [drop (length ''promptvault://fs/'') (URI ref)] = filepath_Join base [t, s, k]
     \<and> (\<forall>x. Backend_Retrieve h base fs2 ref \<noteq> Inr x)
     \<and> (Sscanf_ok (URI ref) \<longrightarrow>
          Backend_Retrieve h base fs2 ref
            = Inl (ErrChecksumMismatch (EncodeToString (h p)) (EncodeToString (h d'))))"
proof -
  note r = Backend_Store_ref[OF st]
  have c: "Checksum ref = EncodeToString (h p)" using r by simp
  have loc: "filepath_Join base [drop (length ''promptvault://fs/'') (URI ref)] = filepath_Join base [t, s, k]"
    using r by (intro Backend_locator) simp
  have "h d' \<noteq> h p" using inj ne by (auto simp: inj_on_def)
  then have diff: "EncodeToString (h d') \<noteq> Checksum ref"
    using c EncodeToString_inj[of "h d'" "h p"] by auto
  have no: "\<forall>x. Backend_Retrieve h base fs2 ref \<noteq> Inr x"
    using rd diff by (auto simp: Backend_Retrieve_Inr_iff)
  have "Sscanf_ok (URI ref) \<longrightarrow>
          Backend_Retrieve h base fs2 ref
            = Inl (ErrChecksumMismatch (EncodeToString (h p)) (EncodeToString (h d')))"
    using Backend_Retrieve_mismatch[of ref fs2 base d' h] rd diff c by simp
  with c loc no show ?thesis by blast
qed

lemma hello_overwritten:
  "os_ReadFile (snd (Backend_Store toy_sum256 [''data'', ''vault''] hello_fs ''0102030405060708090a0b0c0d0e0f10'' ''0102030405060708'' ''gen_ai.prompt'' (bytes_of_string ''HELLO'')))
      (filepath_Join [''data'', ''vault''] [drop (length ''promptvault://fs/'') (URI hello_ref)])
     = Some (bytes_of_string ''HELLO'')"
  by (simp add: fs_eval)

theorem checksum_enforcement_witness:
  "Backend_Store toy_sum256 [''data'', ''vault''] (DirNode []) ''0102030405060708090a0b0c0d0e0f10'' ''0102030405060708'' ''gen_ai.prompt'' (bytes_of_string ''hello'')
     = (Inr hello_ref, hello_fs)
   \<and> os_ReadFile (snd (Backend_Store toy_sum256 [''data'', ''vault''] hello_fs ''0102030405060708090a0b0c0d0e0f10'' ''0102030405060708'' ''gen_ai.prompt'' (bytes_of_string ''HELLO'')))
        (filepath_Join [''data'', ''vault''] [drop (length ''promptvault://fs/'') (URI hello_ref)])
       = Some (bytes_of_string ''HELLO'')
   \<and> bytes_of_string ''HELLO'' \<noteq> bytes_of_string ''hello''
   \<and> inj_on toy_sum256 {bytes_of_string ''hello'', bytes_of_string ''HELLO''}
   \<and> Sscanf_ok (URI hello_ref)
   \<and> Backend_Retrieve toy_sum256 [''data'', ''vault'']
        (snd (Backend_Store toy_sum256 [''data'', ''vault''] hello_fs ''0102030405060708090a0b0c0d0e0f10'' ''0102030405060708'' ''gen_ai.prompt'' (bytes_of_string ''HELLO'')))
        hello_ref
       = Inl (ErrChecksumMismatch (EncodeToString (toy_sum256 (bytes_of_string ''hello'')))
                (EncodeToString (toy_sum256 (bytes_of_string ''HELLO''))))"
proof -
  have ne: "bytes_of_string ''HELLO'' \<noteq> bytes_of_string ''hello''"
    by (simp add: bytes_of_string_def)
  have inj: "inj_on toy_sum256 {bytes_of_string ''hello'', bytes_of_string ''HELLO''}"
    by (simp add: toy_sum256_def bytes_of_string_def replicate_numeral)
  from checksum_enforcement[OF hello_store hello_overwritten ne inj]
    hello_store hello_overwritten ne inj hello_scan
  show ?thesis by blast
qed

lemma os_ReadFile_lookup: "os_ReadFile fs q = Some c \<longleftrightarrow> lookup fs q = Some (FileNode c)"
  by (auto simp: os_ReadFile_def split: option.splits node.splits)

lemma Vault_Store_keeps_files:
  "os_ReadFile fs q = Some c \<Longrightarrow> os_ReadFile (snd (Vault_Store h base now fs p)) q = Some c"
proof -
  assume a: "os_ReadFile fs q = Some c"
  let ?dir = "filepath_Join base [Format now]"
  let ?path = "filepath_Join ?dir [EncodeToString (h p) @ ''.vault'']"
  show ?thesis
  proof (cases "os_MkdirAll fs ?dir")
    case None
    then show ?thesis using a by (simp add: Vault_Store_def Let_def)
  next
    case (Some fs1)
    have k1: "os_ReadFile fs1 q = Some c"
      using MkdirAll_keeps_files[OF Some] a by (simp add: os_ReadFile_lookup)
    show ?thesis
    proof (cases "os_Stat fs1 ?path")
      case True
      then show ?thesis using Some k1 by (simp add: Vault_Store_def Let_def)
    next
      case False
      then have qp: "q \<noteq> ?path" using k1 by (auto simp: os_Stat_def os_ReadFile_lookup)
      show ?thesis
      proof (cases "os_WriteFile fs1 ?path p")
        case None
        then show ?thesis using Some False k1 by (simp add: Vault_Store_def Let_def)
      next
        case (Some fs2)
        have "os_ReadFile fs2 q = Some c"
          using WriteFile_keeps_files[OF Some qp] k1 by (simp add: os_ReadFile_lookup)
        then show ?thesis using \<open>os_MkdirAll fs ?dir = Some fs1\<close> False Some
          by (simp add: Vault_Store_def Let_def)
      qed
    qed
  qed
qed

lemma Backend_Store_keeps_files:
  "os_ReadFile fs q = Some c \<Longrightarrow> q \<noteq> filepath_Join base [t, s, k] \<Longrightarrow>
   os_ReadFile (snd (Backend_Store h base fs t s k p)) q = Some c"
proof -
  assume a: "os_ReadFile fs q = Some c" and qp: "q \<noteq> filepath_Join base [t, s, k]"
  let ?path = "filepath_Join base [t, s, k]"
  show ?thesis
  proof (cases "os_MkdirAll fs (filepath_Dir ?path)")
    case None
    then show ?thesis using a by (simp add: Backend_Store_def Let_def)
  next
    case (Some fs1)
    have k1: "os_ReadFile fs1 q = Some c"
      using MkdirAll_keeps_files[OF Some] a by (simp add: os_ReadFile_lookup)
    show ?thesis
    proof (cases "os_WriteFile fs1 ?path p")
      case None
      then show ?thesis using Some k1 by (simp add: Backend_Store_def Let_def)
    next
      case (Some fs2)
      have "os_ReadFile fs2 q = Some c"
        using WriteFile_keeps_files[OF Some qp] k1 by (simp add: os_ReadFile_lookup)
      then show ?thesis using \<open>os_MkdirAll fs (filepath_Dir ?path) = Some fs1\<close> Some
        by (simp add: Backend_Store_def Let_def)
    qed
  qed
qed

text \<open>
  Claim C9, as the code has it. \<open>FilesystemVault.Store\<close> (hash-addressed) leaves the bytes
  of every file unchanged, and when something exists at its target path it writes nothing
  and returns the reference. \<open>FilesystemBackend.Store\<close> (addressed by trace, span and
  attribute key) has no existence check: it leaves the bytes of every file at another path
  unchanged, and after a successful call its target path holds the new payload, whatever
  was there before.
\<close>

theorem store_frame:
  "(os_ReadFile fs q = Some c \<longrightarrow>
      os_ReadFile (snd (Vault_Store h base now fs p)) q = Some c)
   \<and> (os_MkdirAll fs (filepath_Join base [Format now]) = Some fs1
        \<and> os_Stat fs1 (filepath_Join (filepath_Join base [Format now])
                         [EncodeToString (h p) @ ''.vault'']) \<longrightarrow>
      Vault_Store h base now fs p = (Inr (''vault://'' @ EncodeToString (h p)), fs1))
   \<and> (os_ReadFile fs q = Some c \<and> q \<noteq> filepath_Join base [t, s, k] \<longrightarrow>
      os_ReadFile (snd (Backend_Store h base fs t s k p)) q = Some c)
   \<and> (Backend_Store h base fs t s k p = (Inr ref, fs') \<longrightarrow>
      os_ReadFile fs' (filepath_Join base [t, s, k]) = Some p)"
  using Vault_Store_keeps_files[of fs q c h base now p]
    Backend_Store_keeps_files[of fs q c base t s k h p]
    Backend_Store_ref[of h base fs t s k p ref fs']
  by (auto simp: Vault_Store_def Let_def)

lemmas vault_eval =
  Vault_Store_def Vault_Retrieve_def Format_def dec.simps zpad_def digit_def test_time_def
  filepath_Walk_def NewFilesystemVault_def hello_vault_def

lemma hello_vault_store:
  "Vault_Store toy_sum256 [''data'', ''vault''] test_time (DirNode []) (bytes_of_string ''hello'')
     = (Inr (''vault://'' @ ''68656c6c6f000000000000000000000000000000000000000000000000000005''), hello_vault)"
  by (simp add: fs_eval vault_eval)

lemma hello_vault_retrieve:
  "Vault_Retrieve [''data'', ''vault''] hello_vault (''vault://'' @ ''68656c6c6f000000000000000000000000000000000000000000000000000005'') = Inr (bytes_of_string ''hello'')"
  by (simp add: fs_eval vault_eval)

theorem store_frame_witness:
  "os_ReadFile hello_fs [''data'', ''vault'', ''0102030405060708090a0b0c0d0e0f10'', ''0102030405060708'', ''gen_ai.prompt''] = Some (bytes_of_string ''hello'')
   \<and> os_ReadFile
        (snd (Vault_Store toy_sum256 [''data'', ''vault''] test_time hello_fs (bytes_of_string ''hello'')))
        [''data'', ''vault'', ''0102030405060708090a0b0c0d0e0f10'', ''0102030405060708'', ''gen_ai.prompt''] = Some (bytes_of_string ''hello'')
   \<and> os_MkdirAll hello_vault (filepath_Join [''data'', ''vault''] [Format test_time]) = Some hello_vault
   \<and> os_Stat hello_vault
        (filepath_Join (filepath_Join [''data'', ''vault''] [Format test_time])
           [EncodeToString (toy_sum256 (bytes_of_string ''hello'')) @ ''.vault''])
   \<and> Vault_Store toy_sum256 [''data'', ''vault''] test_time hello_vault (bytes_of_string ''hello'')
       = (Inr (''vault://'' @ EncodeToString (toy_sum256 (bytes_of_string ''hello''))), hello_vault)
   \<and> [''data'', ''vault'', ''0102030405060708090a0b0c0d0e0f10'', ''0102030405060708'', ''gen_ai.prompt'']
        \<noteq> filepath_Join [''data'', ''vault''] [''0102030405060708090a0b0c0d0e0f10'', ''0102030405060708'', ''gen_ai.completion'']
   \<and> os_ReadFile
        (snd (Backend_Store toy_sum256 [''data'', ''vault''] hello_fs ''0102030405060708090a0b0c0d0e0f10'' ''0102030405060708'' ''gen_ai.completion''
                (bytes_of_string ''world'')))
        [''data'', ''vault'', ''0102030405060708090a0b0c0d0e0f10'', ''0102030405060708'', ''gen_ai.prompt''] = Some (bytes_of_string ''hello'')
   \<and> Backend_Store toy_sum256 [''data'', ''vault''] (DirNode []) ''0102030405060708090a0b0c0d0e0f10'' ''0102030405060708'' ''gen_ai.prompt'' (bytes_of_string ''hello'')
       = (Inr hello_ref, hello_fs)
   \<and> os_ReadFile hello_fs (filepath_Join [''data'', ''vault''] [''0102030405060708090a0b0c0d0e0f10'', ''0102030405060708'', ''gen_ai.prompt'']) = Some (bytes_of_string ''hello'')"
proof -
  have r: "os_ReadFile hello_fs [''data'', ''vault'', ''0102030405060708090a0b0c0d0e0f10'', ''0102030405060708'', ''gen_ai.prompt''] = Some (bytes_of_string ''hello'')"
    by (simp add: fs_eval)
  have m: "os_MkdirAll hello_vault (filepath_Join [''data'', ''vault''] [Format test_time]) = Some hello_vault"
    by (simp add: fs_eval vault_eval)
  have e: "os_Stat hello_vault
        (filepath_Join (filepath_Join [''data'', ''vault''] [Format test_time])
           [EncodeToString (toy_sum256 (bytes_of_string ''hello'')) @ ''.vault''])"
    by (simp add: fs_eval vault_eval)
  have n: "[''data'', ''vault'', ''0102030405060708090a0b0c0d0e0f10'', ''0102030405060708'', ''gen_ai.prompt'']
        \<noteq> filepath_Join [''data'', ''vault''] [''0102030405060708090a0b0c0d0e0f10'', ''0102030405060708'', ''gen_ai.completion'']"
    by (simp add: fs_eval)
  note t1 = store_frame[of hello_fs "[''data'', ''vault'', ''0102030405060708090a0b0c0d0e0f10'', ''0102030405060708'', ''gen_ai.prompt'']"
      "bytes_of_string ''hello''" toy_sum256 "[''data'', ''vault'']" test_time "bytes_of_string ''hello''" _
      "''0102030405060708090a0b0c0d0e0f10''" "''0102030405060708''" "''gen_ai.completion''"]
  note t2 = store_frame[of hello_vault _ _ toy_sum256 "[''data'', ''vault'']" test_time "bytes_of_string ''hello''"
      hello_vault]
  note t3 = store_frame[of "DirNode []" _ _ toy_sum256 "[''data'', ''vault'']" _ "bytes_of_string ''hello''" _
      "''0102030405060708090a0b0c0d0e0f10''" "''0102030405060708''" "''gen_ai.prompt''" hello_ref hello_fs]
  have c1: "os_ReadFile
        (snd (Vault_Store toy_sum256 [''data'', ''vault''] test_time hello_fs (bytes_of_string ''hello'')))
        [''data'', ''vault'', ''0102030405060708090a0b0c0d0e0f10'', ''0102030405060708'', ''gen_ai.prompt''] = Some (bytes_of_string ''hello'')"
    using t1 r by blast
  have c2: "Vault_Store toy_sum256 [''data'', ''vault''] test_time hello_vault (bytes_of_string ''hello'')
       = (Inr (''vault://'' @ EncodeToString (toy_sum256 (bytes_of_string ''hello''))), hello_vault)"
    using t2 m e by blast
  note t4 = store_frame[of hello_fs "[''data'', ''vault'', ''0102030405060708090a0b0c0d0e0f10'', ''0102030405060708'', ''gen_ai.prompt'']"
      "bytes_of_string ''hello''" toy_sum256 "[''data'', ''vault'']" _ "bytes_of_string ''world''" _
      "''0102030405060708090a0b0c0d0e0f10''" "''0102030405060708''" "''gen_ai.completion''"]
  have c3: "os_ReadFile
        (snd (Backend_Store toy_sum256 [''data'', ''vault''] hello_fs ''0102030405060708090a0b0c0d0e0f10'' ''0102030405060708'' ''gen_ai.completion''
                (bytes_of_string ''world'')))
        [''data'', ''vault'', ''0102030405060708090a0b0c0d0e0f10'', ''0102030405060708'', ''gen_ai.prompt''] = Some (bytes_of_string ''hello'')"
    using t4 r n by blast
  have c4: "os_ReadFile hello_fs (filepath_Join [''data'', ''vault''] [''0102030405060708090a0b0c0d0e0f10'', ''0102030405060708'', ''gen_ai.prompt'']) = Some (bytes_of_string ''hello'')"
    using t3 hello_store by blast
  show ?thesis
    using r m e n hello_store c1 c2 c3 c4 by blast
qed

text \<open>
  The claim as the specification states it fails for \<open>FilesystemBackend.Store\<close>: a second
  \<open>Store\<close> for the same trace, span and attribute key replaces the bytes of the object the
  first one stored.
\<close>

theorem backend_overwrites_counterexample:
  "Backend_Store toy_sum256 [''data'', ''vault''] (DirNode []) ''0102030405060708090a0b0c0d0e0f10'' ''0102030405060708'' ''gen_ai.prompt'' (bytes_of_string ''hello'')
     = (Inr hello_ref, hello_fs)
   \<and> os_ReadFile hello_fs [''data'', ''vault'', ''0102030405060708090a0b0c0d0e0f10'', ''0102030405060708'', ''gen_ai.prompt''] = Some (bytes_of_string ''hello'')
   \<and> os_ReadFile
        (snd (Backend_Store toy_sum256 [''data'', ''vault''] hello_fs ''0102030405060708090a0b0c0d0e0f10'' ''0102030405060708'' ''gen_ai.prompt'' (bytes_of_string ''HELLO'')))
        [''data'', ''vault'', ''0102030405060708090a0b0c0d0e0f10'', ''0102030405060708'', ''gen_ai.prompt''] = Some (bytes_of_string ''HELLO'')"
  by (simp add: fs_eval)


end
